theory Spec2Isabelle
  imports Main "HOL-Library.Log_Nat" "HOL-Library.Sublist"
begin

section \<open>Memory-footprint estimation of the pipeline registry\<close>

text \<open>
  A shallow embedding of the capacity resolution code of
  \<^verbatim>\<open>src/max/pipelines/registry.py\<close>: \<^verbatim>\<open>_estimate_memory_footprint\<close>,
  \<^verbatim>\<open>_raise_oom_error\<close>, \<^verbatim>\<open>_find_valid_max_length\<close>, \<^verbatim>\<open>_find_valid_batch_size\<close>,
  \<^verbatim>\<open>_calculate_kv_cache_size\<close> and the composition of the out-of-memory message.

  Python's unbounded integers are \<open>int\<close>, \<^verbatim>\<open>//\<close> is \<open>div\<close> (both round towards
  minus infinity). The configuration object is mutated in place by the source; here it
  is threaded through every function together with a trace of the observable effects
  (calls into the architecture's model class and log records), so that the frame
  properties of the code can be stated.
\<close>

subsection \<open>Data model\<close>

text \<open>
  The fields of \<^verbatim>\<open>PipelineConfig\<close> that the footprint estimation reads or writes.
  \<^item> \<open>max_length\<close>, \<open>max_batch_size\<close>: \<^verbatim>\<open>Optional[int]\<close>, \<open>None\<close> when the user gave none.
  \<^item> \<open>devices\<close>: one entry per device, the value of \<^verbatim>\<open>d.stats["free_memory"]\<close>, or
    \<open>None\<close> when that query raises.
  \<^item> \<open>device_memory_utilization\<close>: a float in the source, whose only use is the expression
    \<^verbatim>\<open>int(available_kv_cache_memory * pipeline_config.device_memory_utilization)\<close>; the
    field is represented by the map on byte counts that this expression induces.
  \<^item> \<open>available_cache_memory\<close>: the private field \<^verbatim>\<open>_available_cache_memory\<close>.
\<close>

record pipeline_config =
  max_length :: "int option"
  max_batch_size :: "int option"
  devices :: "int option list"
  device_memory_utilization :: "int \<Rightarrow> int"
  available_cache_memory :: "int option"

text \<open>
  The class methods of \<^verbatim>\<open>arch.pipeline_model\<close> the estimation calls, taken as pure
  functions of their arguments; \<open>is_kv_cache_mixin\<close> is \<^verbatim>\<open>issubclass(model_cls, KVCacheMixin)\<close>.
\<close>

record capacity_model =
  is_kv_cache_mixin :: bool
  estimate_weights_size :: "pipeline_config \<Rightarrow> int"
  estimate_kv_cache_size :: "pipeline_config \<Rightarrow> int \<Rightarrow> int"
  calculate_max_seq_len :: "pipeline_config \<Rightarrow> int"
  infer_optimal_batch_size :: "pipeline_config \<Rightarrow> int \<Rightarrow> int"

text \<open>The function on whose behalf a call into the model class is made.\<close>

datatype origin = Resolver | LengthSearch | BatchSearch

text \<open>
  The trace: calls into the model class (with the configuration and the cache budget
  they received) and the records written to the logger.
\<close>

datatype event =
    Call_estimate_weights_size pipeline_config
  | Call_calculate_max_seq_len pipeline_config
  | Call_infer_optimal_batch_size origin pipeline_config int
  | Call_calculate_kv_cache_size origin pipeline_config int
  | Warn_device_stats
  | Warn_truncated "int option" int
  | Info_estimate int int int
  | Warn_high_water_mark

datatype error =
    RuntimeError string
  | AssertionError
  | TypeError
  | UnboundLocalError

text \<open>How a call ends: it returns, or it raises.\<close>

datatype outcome = Returned | Raised error

type_synonym state = "pipeline_config \<times> event list"

subsection \<open>Calls into the model class\<close>

definition calculate_kv_cache_size :: "capacity_model \<Rightarrow> pipeline_config \<Rightarrow> int \<Rightarrow> int" where
  "calculate_kv_cache_size m c available_kv_cache_memory =
     (if is_kv_cache_mixin m then estimate_kv_cache_size m c available_kv_cache_memory else 0)"

subsection \<open>Binary search over the sequence length\<close>

text \<open>
  One pass through the first half of the loop body of \<^verbatim>\<open>_find_valid_max_length\<close>: the
  trial length is written to the configuration, the batch size is inferred again when
  the user gave none, and the cache size is calculated.
\<close>

definition length_trial :: "capacity_model \<Rightarrow> int \<Rightarrow> bool \<Rightarrow> int \<Rightarrow> state \<Rightarrow> state" where
  "length_trial m available_kv_cache_memory user_provided_max_batch_size inferred_max_length s =
     (let c1 = (fst s)\<lparr>max_length := Some inferred_max_length\<rparr>;
          c2 = (if \<not> user_provided_max_batch_size
                then c1\<lparr>max_batch_size :=
                          Some (infer_optimal_batch_size m c1 available_kv_cache_memory)\<rparr>
                else c1);
          t2 = (if \<not> user_provided_max_batch_size
                then snd s @ [Call_infer_optimal_batch_size LengthSearch c1 available_kv_cache_memory]
                else snd s)
      in (c2, t2 @ [Call_calculate_kv_cache_size LengthSearch c2 available_kv_cache_memory]))"

text \<open>
  The \<^verbatim>\<open>while\<close> loop of \<^verbatim>\<open>_find_valid_max_length\<close>, with \<open>lower\<close> and \<open>upper\<close> as
  arguments. The result is \<open>found_valid_max_length\<close>, \<open>inferred_max_length\<close> and
  the state at the exit of the loop.
\<close>

function max_length_loop ::
  "capacity_model \<Rightarrow> int \<Rightarrow> bool \<Rightarrow> int \<Rightarrow> int \<Rightarrow> state \<Rightarrow> bool \<times> int \<times> state" where
  "max_length_loop m available_kv_cache_memory user_provided_max_batch_size lower upper s =
     (let inferred_max_length = (lower + upper) div 2;
          s' = length_trial m available_kv_cache_memory user_provided_max_batch_size
                 inferred_max_length s;
          kv_cache_size = calculate_kv_cache_size m (fst s') available_kv_cache_memory
      in if lower > upper then (False, inferred_max_length, s')
         else if upper - lower \<le> 1
           then (kv_cache_size \<le> available_kv_cache_memory, inferred_max_length, s')
         else if kv_cache_size > available_kv_cache_memory
           then max_length_loop m available_kv_cache_memory user_provided_max_batch_size
                  lower (inferred_max_length - 1) s'
         else max_length_loop m available_kv_cache_memory user_provided_max_batch_size
                  inferred_max_length upper s')"
  by pat_completeness auto
termination
  by (relation "measure (\<lambda>(m, a, u, lower, upper, s). nat (upper - lower))") auto

declare max_length_loop.simps [simp del]

text \<open>
  \<^verbatim>\<open>_find_valid_max_length\<close>: the two assertions, the loop over \<open>[1, max_length]\<close>, and
  the triple it returns, whose last component is \<^verbatim>\<open>pipeline_config.max_batch_size\<close>
  read after the loop.
\<close>

definition find_valid_max_length ::
  "capacity_model \<Rightarrow> int \<Rightarrow> bool \<Rightarrow> state \<Rightarrow> (error + bool \<times> int \<times> int option) \<times> state" where
  "find_valid_max_length m available_kv_cache_memory user_provided_max_batch_size s =
     (case max_length (fst s) of
        None \<Rightarrow> (Inl AssertionError, s)
      | Some upper \<Rightarrow>
          (case max_batch_size (fst s) of
             None \<Rightarrow> (Inl AssertionError, s)
           | Some _ \<Rightarrow>
               (case max_length_loop m available_kv_cache_memory user_provided_max_batch_size
                       1 upper s of
                  (found_valid_max_length, inferred_max_length, s') \<Rightarrow>
                    (Inr (found_valid_max_length, inferred_max_length, max_batch_size (fst s')),
                     s'))))"

subsection \<open>Binary search over the batch size\<close>

text \<open>The first half of the loop body of \<^verbatim>\<open>_find_valid_batch_size\<close>.\<close>

definition batch_trial :: "capacity_model \<Rightarrow> int \<Rightarrow> int \<Rightarrow> state \<Rightarrow> state" where
  "batch_trial m available_kv_cache_memory inferred_max_batch_size s =
     (let c1 = (fst s)\<lparr>max_batch_size := Some inferred_max_batch_size\<rparr>
      in (c1, snd s @ [Call_calculate_kv_cache_size BatchSearch c1 available_kv_cache_memory]))"

function batch_size_loop ::
  "capacity_model \<Rightarrow> int \<Rightarrow> int \<Rightarrow> int \<Rightarrow> state \<Rightarrow> bool \<times> int \<times> state" where
  "batch_size_loop m available_kv_cache_memory lower upper s =
     (let inferred_max_batch_size = (lower + upper) div 2;
          s' = batch_trial m available_kv_cache_memory inferred_max_batch_size s;
          kv_cache_size = calculate_kv_cache_size m (fst s') available_kv_cache_memory
      in if lower > upper then (False, inferred_max_batch_size, s')
         else if upper - lower \<le> 1
           then (kv_cache_size \<le> available_kv_cache_memory, inferred_max_batch_size, s')
         else if kv_cache_size > available_kv_cache_memory
           then batch_size_loop m available_kv_cache_memory lower (inferred_max_batch_size - 1) s'
         else batch_size_loop m available_kv_cache_memory inferred_max_batch_size upper s')"
  by pat_completeness auto
termination
  by (relation "measure (\<lambda>(m, a, lower, upper, s). nat (upper - lower))") auto

declare batch_size_loop.simps [simp del]

text \<open>
  \<^verbatim>\<open>_find_valid_batch_size\<close>. Without a user-provided batch size it returns \<open>(False, -1)\<close>
  at once. Otherwise it writes \<open>original_max_length\<close> back to the configuration and
  searches \<open>[1, max_batch_size]\<close>; a batch size of \<open>None\<close> would fail in
  \<^verbatim>\<open>(lower + upper) // 2\<close>.
\<close>

definition find_valid_batch_size ::
  "capacity_model \<Rightarrow> int \<Rightarrow> int option \<Rightarrow> bool \<Rightarrow> state \<Rightarrow> (error + bool \<times> int) \<times> state" where
  "find_valid_batch_size m available_kv_cache_memory original_max_length
       user_provided_max_batch_size s =
     (if \<not> user_provided_max_batch_size then (Inr (False, - 1), s)
      else
        (let s1 = ((fst s)\<lparr>max_length := original_max_length\<rparr>, snd s)
         in case max_batch_size (fst s1) of
              None \<Rightarrow> (Inl TypeError, s1)
            | Some upper \<Rightarrow>
                (case batch_size_loop m available_kv_cache_memory 1 upper s1 of
                   (found_valid_max_batch_size, inferred_max_batch_size, s') \<Rightarrow>
                     (Inr (found_valid_max_batch_size, inferred_max_batch_size), s'))))"

subsection \<open>The out-of-memory message\<close>

text \<open>Python's \<^verbatim>\<open>str\<close> of an integer, as used by the f-strings.\<close>

definition digit_char :: "nat \<Rightarrow> char" where
  "digit_char d = ''0123456789'' ! d"

function str_nat :: "nat \<Rightarrow> string" where
  "str_nat n = (if n < 10 then [digit_char n] else str_nat (n div 10) @ [digit_char (n mod 10)])"
  by pat_completeness auto
termination
  by (relation "measure (\<lambda>n. n)") auto

declare str_nat.simps [simp del]

definition str_int :: "int \<Rightarrow> string" where
  "str_int i = (if i < 0 then ''-'' @ str_nat (nat (- i)) else str_nat (nat i))"

text \<open>An \<^verbatim>\<open>Optional[int]\<close> in an f-string: \<open>None\<close> prints as its name.\<close>

definition str_opt :: "int option \<Rightarrow> string" where
  "str_opt v = (case v of None \<Rightarrow> ''None'' | Some i \<Rightarrow> str_int i)"

text \<open>
  Floats. Python's floats are IEEE doubles: 53 significant bits, results rounded to
  the nearest double, a tie to the one with an even significand. \<open>round_half_even k n\<close>
  is \<open>n\<close> rounded in this way to a multiple of \<open>2^k\<close>, and \<open>float_of_nat n\<close> is the
  double nearest to \<open>n\<close>: \<open>n\<close> itself when it has at most 53 bits (\<open>floorlog 2 n\<close> is
  the bit length of \<open>n\<close>), and \<open>n\<close> rounded to a multiple of \<open>2^(bits - 53)\<close> otherwise.
  This is the value of the conversion of an integer to a float, and, scaled by a
  power of two, of every correctly rounded operation whose exact result is \<open>n\<close> times a
  power of two. Overflow is not part of the model: all byte counts are taken to be
  below \<open>2^1024\<close>, where a conversion to float never fails.
\<close>

definition round_half_even :: "nat \<Rightarrow> nat \<Rightarrow> nat" where
  "round_half_even k n =
     (let q = n div 2 ^ k; r = n mod 2 ^ k
      in (if 2 * r < 2 ^ k then q
          else if 2 * r > 2 ^ k then q + 1
          else if even q then q else q + 1) * 2 ^ k)"

definition float_of_nat :: "nat \<Rightarrow> nat" where
  "float_of_nat n = round_half_even (floorlog 2 n - 53) n"

definition float_of_int :: "int \<Rightarrow> int" where
  "float_of_int i = sgn i * int (float_of_nat (nat \<bar>i\<bar>))"

text \<open>
  \<^verbatim>\<open>_to_mib(bytes) = round(bytes / 1024 / 1024)\<close>. The true division of two integers
  is correctly rounded, so \<^verbatim>\<open>bytes / 1024\<close> is the double nearest to \<open>bytes\<close>, divided
  by \<open>1024\<close>; the second division, by a power of two, is exact. Python's \<^verbatim>\<open>round\<close>
  then gives the nearest integer, a tie going to the even one.
\<close>

definition to_mib :: "int \<Rightarrow> int" where
  "to_mib bytes =
     (let v = float_of_int bytes; q = v div 1048576; r = v mod 1048576
      in if r < 524288 then q
         else if r > 524288 then q + 1
         else if even q then q else q + 1)"

text \<open>
  \<^verbatim>\<open>_add_user_provided_max_length_suggestions\<close>: the text it writes to the buffer.
\<close>

definition add_user_provided_max_length_suggestions ::
  "bool \<Rightarrow> bool \<Rightarrow> bool \<Rightarrow> int \<Rightarrow> int \<Rightarrow> int option \<Rightarrow> string" where
  "add_user_provided_max_length_suggestions user_provided_max_batch_size
       found_valid_max_length found_valid_max_batch_size inferred_max_length
       inferred_max_batch_size inferred_max_length_compatible_batch_size =
     (if \<not> user_provided_max_batch_size then
        (if found_valid_max_length
         then ''reducing --max-length to '' @ str_int inferred_max_length @ '' ''
              @ ''(supports batch size of ''
              @ str_opt inferred_max_length_compatible_batch_size @ '')''
         else ''reducing --max-length or --max-batch-size'')
      else
        (if found_valid_max_length
         then ''reducing --max-length to '' @ str_int inferred_max_length @ '' and ''
              @ ''--max-batch-size to ''
              @ str_opt inferred_max_length_compatible_batch_size @ '')''
         else [])
        @ (if found_valid_max_batch_size
           then (if found_valid_max_length then '' or '' else [])
                @ ''reducing --max-batch-size to '' @ str_int inferred_max_batch_size
           else []))"

text \<open>\<^verbatim>\<open>_add_default_max_length_suggestions\<close>: the text it writes to the buffer.\<close>

definition add_default_max_length_suggestions ::
  "bool \<Rightarrow> bool \<Rightarrow> bool \<Rightarrow> int \<Rightarrow> int \<Rightarrow> int option \<Rightarrow> int option \<Rightarrow> string" where
  "add_default_max_length_suggestions user_provided_max_batch_size
       found_valid_max_length found_valid_max_batch_size inferred_max_length
       inferred_max_batch_size inferred_max_length_compatible_batch_size original_max_length =
     (if \<not> user_provided_max_batch_size then
        (if found_valid_max_length
         then ''setting --max-length to '' @ str_int inferred_max_length @ '' and ''
              @ ''--max-batch-size to ''
              @ str_opt inferred_max_length_compatible_batch_size @ '')''
         else [])
        @ (if found_valid_max_batch_size
           then (if found_valid_max_length then '' or '' else [])
                @ ''setting --max-batch-size to '' @ str_int inferred_max_batch_size
           else [])
      else
        (if found_valid_max_batch_size
         then ''reducing --max-batch-size to '' @ str_int inferred_max_batch_size
         else [])
        @ (if found_valid_max_length
           then (if found_valid_max_batch_size then '' or '' else [])
                @ ''setting --max-length to '' @ str_int inferred_max_length @ '' ''
                @ ''(currently defaulted to '' @ str_opt original_max_length @ '')''
           else []))"

text \<open>The opening sentence of the message, up to and including \<open>Try\<close>.\<close>

definition oom_message_head :: "int \<Rightarrow> int \<Rightarrow> string" where
  "oom_message_head total_size original_free_memory =
     (let free_memory_str =
            (if original_free_memory \<noteq> 0
             then '' / '' @ str_int (to_mib original_free_memory) @ '' MiB free''
             else [])
      in ''Estimated model and kv cache memory use exceeds available memory (''
         @ str_int (to_mib total_size) @ '' MiB'' @ free_memory_str @ ''). Try '')"

definition generic_suggestion :: string where
  "generic_suggestion =
     ''reducing --max-length or --max-batch-size, finding a smaller model, or using a device with more memory.''"

text \<open>The text written between the opening sentence and the final full stop.\<close>

definition oom_suggestions ::
  "bool \<Rightarrow> bool \<Rightarrow> bool \<Rightarrow> bool \<Rightarrow> int \<Rightarrow> int \<Rightarrow> int option \<Rightarrow> int option \<Rightarrow> string" where
  "oom_suggestions user_provided_max_length user_provided_max_batch_size
       found_valid_max_length found_valid_max_batch_size inferred_max_length
       inferred_max_batch_size inferred_max_length_compatible_batch_size original_max_length =
     (if \<not> found_valid_max_length \<and> \<not> found_valid_max_batch_size then generic_suggestion
      else if user_provided_max_length then
        add_user_provided_max_length_suggestions user_provided_max_batch_size
          found_valid_max_length found_valid_max_batch_size inferred_max_length
          inferred_max_batch_size inferred_max_length_compatible_batch_size
      else
        add_default_max_length_suggestions user_provided_max_batch_size
          found_valid_max_length found_valid_max_batch_size inferred_max_length
          inferred_max_batch_size inferred_max_length_compatible_batch_size
          original_max_length)"

text \<open>\<^verbatim>\<open>_generate_oom_error_message\<close>.\<close>

definition generate_oom_error_message ::
  "int \<Rightarrow> int \<Rightarrow> bool \<Rightarrow> bool \<Rightarrow> bool \<Rightarrow> bool \<Rightarrow> int \<Rightarrow> int \<Rightarrow> int option \<Rightarrow> int option
     \<Rightarrow> string" where
  "generate_oom_error_message total_size original_free_memory user_provided_max_length
       user_provided_max_batch_size found_valid_max_length found_valid_max_batch_size
       inferred_max_length inferred_max_batch_size inferred_max_length_compatible_batch_size
       original_max_length =
     oom_message_head total_size original_free_memory
     @ oom_suggestions user_provided_max_length user_provided_max_batch_size
         found_valid_max_length found_valid_max_batch_size inferred_max_length
         inferred_max_batch_size inferred_max_length_compatible_batch_size original_max_length
     @ ''.''"

subsection \<open>Raising the out-of-memory error\<close>

definition weights_too_large_message :: string where
  "weights_too_large_message =
     ''Weights size exceeds available memory. Try running a smaller model, using a smaller precision, or using a device with more memory.''"

text \<open>
  \<^verbatim>\<open>_raise_oom_error\<close>. Every path through it raises, so the result is the error raised
  and the state left behind.
\<close>

definition raise_oom_error ::
  "capacity_model \<Rightarrow> bool \<Rightarrow> bool \<Rightarrow> int \<Rightarrow> int \<Rightarrow> int \<Rightarrow> int \<Rightarrow> state \<Rightarrow> error \<times> state" where
  "raise_oom_error m user_provided_max_length user_provided_max_batch_size total_size
       original_free_memory available_kv_cache_memory weights_size s =
     (if weights_size > original_free_memory
      then (RuntimeError weights_too_large_message, s)
      else
        (let original_max_length = max_length (fst s);
             original_max_batch_size = max_batch_size (fst s)
         in case find_valid_max_length m available_kv_cache_memory
                   user_provided_max_batch_size s of
              (Inl e, s1) \<Rightarrow> (e, s1)
            | (Inr (found_valid_max_length, inferred_max_length,
                    inferred_max_length_compatible_batch_size), s1) \<Rightarrow>
                (let s2 = ((fst s1)\<lparr>max_batch_size := original_max_batch_size\<rparr>, snd s1)
                 in case find_valid_batch_size m available_kv_cache_memory original_max_length
                           user_provided_max_batch_size s2 of
                      (Inl e, s3) \<Rightarrow> (e, s3)
                    | (Inr (found_valid_max_batch_size, inferred_max_batch_size), s3) \<Rightarrow>
                        (RuntimeError
                           (generate_oom_error_message total_size original_free_memory
                              user_provided_max_length user_provided_max_batch_size
                              found_valid_max_length found_valid_max_batch_size
                              inferred_max_length inferred_max_batch_size
                              inferred_max_length_compatible_batch_size original_max_length),
                         s3))))"

subsection \<open>Estimating the memory footprint\<close>

text \<open>
  \<^verbatim>\<open>int(sum(d.stats["free_memory"] for d in pipeline_config.devices))\<close>: \<open>None\<close> when
  the query of some device raises.
\<close>

fun sum_free_memory :: "int option list \<Rightarrow> int option" where
  "sum_free_memory [] = Some 0"
| "sum_free_memory (d # ds) =
     (case d of
        None \<Rightarrow> None
      | Some f \<Rightarrow> (case sum_free_memory ds of None \<Rightarrow> None | Some r \<Rightarrow> Some (f + r)))"

text \<open>Python's \<^verbatim>\<open>not v\<close> on an \<^verbatim>\<open>Optional[int]\<close>: true for \<open>None\<close> and for \<open>0\<close>.\<close>

definition falsy :: "int option \<Rightarrow> bool" where
  "falsy v = (case v of None \<Rightarrow> True | Some i \<Rightarrow> i = 0)"

text \<open>
  The \<^verbatim>\<open>except\<close> branch (lines 392 to 403): the warning, the static defaults, and the
  return.
\<close>

definition degraded_defaults :: "capacity_model \<Rightarrow> state \<Rightarrow> state" where
  "degraded_defaults m s =
     (let t1 = snd s @ [Warn_device_stats];
          c1 = (if falsy (max_batch_size (fst s)) then (fst s)\<lparr>max_batch_size := Some 1\<rparr>
                else fst s)
      in if falsy (max_length c1)
         then (c1\<lparr>max_length := Some (calculate_max_seq_len m c1)\<rparr>,
               t1 @ [Call_calculate_max_seq_len c1])
         else (c1, t1))"

text \<open>
  Lines 405 to 436: the weights size, the cache budget, the defaults for the parameters
  the user left open, and the first cache size. The result is
  \<open>(model_weights_size, available_kv_cache_memory, actual_kv_cache_size, total_size)\<close>
  and the state.
\<close>

definition initial_footprint ::
  "capacity_model \<Rightarrow> int \<Rightarrow> state \<Rightarrow> (int \<times> int \<times> int \<times> int) \<times> state" where
  "initial_footprint m free_memory s =
     (let c = fst s;
          model_weights_size = estimate_weights_size m c;
          t1 = snd s @ [Call_estimate_weights_size c];
          available_kv_cache_memory =
            device_memory_utilization c (max 0 (free_memory - model_weights_size));
          user_provided_max_length = (max_length c \<noteq> None);
          user_provided_max_batch_size = (max_batch_size c \<noteq> None);
          c1 = (if \<not> user_provided_max_length
                then c\<lparr>max_length := Some (calculate_max_seq_len m c)\<rparr> else c);
          t2 = (if \<not> user_provided_max_length
                then t1 @ [Call_calculate_max_seq_len c] else t1);
          c2 = (if \<not> user_provided_max_batch_size
                then c1\<lparr>max_batch_size :=
                          Some (infer_optimal_batch_size m c1 available_kv_cache_memory)\<rparr>
                else c1);
          t3 = (if \<not> user_provided_max_batch_size
                then t2 @ [Call_infer_optimal_batch_size Resolver c1 available_kv_cache_memory]
                else t2);
          actual_kv_cache_size = calculate_kv_cache_size m c2 available_kv_cache_memory;
          t4 = t3 @ [Call_calculate_kv_cache_size Resolver c2 available_kv_cache_memory];
          c3 = c2\<lparr>available_cache_memory := Some actual_kv_cache_size\<rparr>
      in ((model_weights_size, available_kv_cache_memory, actual_kv_cache_size,
           model_weights_size + actual_kv_cache_size), (c3, t4)))"

text \<open>
  Lines 438 to 463: when the total exceeds the free memory and the user gave no
  \<open>max_length\<close>, the length search runs; a length it finds is written to the
  configuration and the cache size and the total are calculated again. The result is
  the pair \<open>(actual_kv_cache_size, total_size)\<close> after these lines.
\<close>

definition shrink_max_length ::
  "capacity_model \<Rightarrow> int \<Rightarrow> bool \<Rightarrow> bool \<Rightarrow> int \<times> int \<times> int \<times> int \<Rightarrow> state
     \<Rightarrow> (error + int \<times> int) \<times> state" where
  "shrink_max_length m free_memory user_provided_max_length user_provided_max_batch_size fp s =
     (case fp of
        (model_weights_size, available_kv_cache_memory, actual_kv_cache_size, total_size) \<Rightarrow>
          if total_size > free_memory \<and> \<not> user_provided_max_length then
            (let original_max_length = max_length (fst s)
             in case find_valid_max_length m available_kv_cache_memory
                       user_provided_max_batch_size s of
                  (Inl e, s1) \<Rightarrow> (Inl e, s1)
                | (Inr (found_valid_max_length, inferred_max_length, _), s1) \<Rightarrow>
                    if found_valid_max_length then
                      (let t2 = snd s1 @ [Warn_truncated original_max_length inferred_max_length];
                           c2 = (fst s1)\<lparr>max_length := Some inferred_max_length\<rparr>;
                           kv = calculate_kv_cache_size m c2 available_kv_cache_memory;
                           t3 = t2 @ [Call_calculate_kv_cache_size Resolver c2
                                        available_kv_cache_memory]
                       in (Inr (kv, model_weights_size + kv), (c2, t3)))
                    else (Inr (actual_kv_cache_size, total_size), s1))
          else (Inr (actual_kv_cache_size, total_size), s))"

text \<open>
  The test of line 511, \<^verbatim>\<open>total_size > vram_usage_limit_scale * free_memory\<close> with
  \<^verbatim>\<open>vram_usage_limit_scale = 0.95\<close>. The float \<^verbatim>\<open>0.95\<close> is the double
  \<open>4278419646001971 / 2^52\<close>. The product converts \<^verbatim>\<open>free_memory\<close> to a float and rounds
  the exact product of the two doubles; \<open>vram_usage_limit\<close> is that product times
  \<open>2^52\<close>. Python compares an integer with a float by their exact values.
\<close>

definition vram_usage_limit :: "int \<Rightarrow> int" where
  "vram_usage_limit free_memory =
     sgn free_memory *
       int (float_of_nat (4278419646001971 * float_of_nat (nat \<bar>free_memory\<bar>)))"

definition exceeds_vram_usage_limit :: "int \<Rightarrow> int \<Rightarrow> bool" where
  "exceeds_vram_usage_limit total_size free_memory =
     (total_size * 2 ^ 52 > vram_usage_limit free_memory)"

text \<open>
  Lines 465 to 514. \<^verbatim>\<open>free_memory_str\<close> is assigned only when \<^verbatim>\<open>free_memory\<close> is not
  zero, and the log record reads it: with no free memory the f-string raises
  \<^verbatim>\<open>UnboundLocalError\<close>. The record logged is kept as its three byte counts (weights,
  cache, free memory).
\<close>

definition report_footprint ::
  "capacity_model \<Rightarrow> int \<Rightarrow> bool \<Rightarrow> bool \<Rightarrow> int \<Rightarrow> int \<Rightarrow> int \<Rightarrow> int \<Rightarrow> state
     \<Rightarrow> outcome \<times> state" where
  "report_footprint m free_memory user_provided_max_length user_provided_max_batch_size
       model_weights_size available_kv_cache_memory actual_kv_cache_size total_size s =
     (if free_memory = 0 then (Raised UnboundLocalError, s)
      else
        (let s1 = (fst s, snd s @ [Info_estimate model_weights_size actual_kv_cache_size
                                     free_memory])
         in if total_size > free_memory then
              (case raise_oom_error m user_provided_max_length user_provided_max_batch_size
                      total_size free_memory available_kv_cache_memory model_weights_size s1 of
                 (e, s2) \<Rightarrow> (Raised e, s2))
            else if exceeds_vram_usage_limit total_size free_memory
              then (Returned, (fst s1, snd s1 @ [Warn_high_water_mark]))
            else (Returned, s1)))"

text \<open>
  The total on which lines 496 to 514 decide: the state and the locals after line 463,
  or the error raised before.
\<close>

definition settled_footprint ::
  "capacity_model \<Rightarrow> int \<Rightarrow> state \<Rightarrow> (error + int \<times> int \<times> int \<times> int) \<times> state" where
  "settled_footprint m free_memory s =
     (case initial_footprint m free_memory s of
        ((model_weights_size, available_kv_cache_memory, kv0, total0), s1) \<Rightarrow>
          (case shrink_max_length m free_memory (max_length (fst s) \<noteq> None)
                  (max_batch_size (fst s) \<noteq> None)
                  (model_weights_size, available_kv_cache_memory, kv0, total0) s1 of
             (Inl e, s2) \<Rightarrow> (Inl e, s2)
           | (Inr (actual_kv_cache_size, total_size), s2) \<Rightarrow>
               (Inr (model_weights_size, available_kv_cache_memory, actual_kv_cache_size,
                     total_size), s2)))"

text \<open>\<^verbatim>\<open>_estimate_memory_footprint\<close>.\<close>

definition estimate_memory_footprint :: "capacity_model \<Rightarrow> state \<Rightarrow> outcome \<times> state" where
  "estimate_memory_footprint m s =
     (case sum_free_memory (devices (fst s)) of
        None \<Rightarrow> (Returned, degraded_defaults m s)
      | Some free_memory \<Rightarrow>
          (case settled_footprint m free_memory s of
             (Inl e, s2) \<Rightarrow> (Raised e, s2)
           | (Inr (model_weights_size, available_kv_cache_memory, actual_kv_cache_size,
                   total_size), s2) \<Rightarrow>
               report_footprint m free_memory (max_length (fst s) \<noteq> None)
                 (max_batch_size (fst s) \<noteq> None) model_weights_size
                 available_kv_cache_memory actual_kv_cache_size total_size s2))"

subsection \<open>Notions used by the statements\<close>

text \<open>The cache size that the length search measures at a trial length.\<close>

definition length_trial_size :: "capacity_model \<Rightarrow> int \<Rightarrow> bool \<Rightarrow> int \<Rightarrow> state \<Rightarrow> int" where
  "length_trial_size m a upb i s = calculate_kv_cache_size m (fst (length_trial m a upb i s)) a"

subsection \<open>Concrete inputs\<close>

text \<open>
  A model class whose cache grows with the product of sequence length and batch size,
  with weights of 10 bytes and a default sequence length of 8. Its inferred batch size
  is 100 up to length 5 and 1 beyond.
\<close>

definition product_cache :: "pipeline_config \<Rightarrow> int \<Rightarrow> int" where
  "product_cache c a =
     (case max_length c of
        None \<Rightarrow> 0
      | Some l \<Rightarrow> (case max_batch_size c of None \<Rightarrow> 0 | Some b \<Rightarrow> max 0 l * max 0 b))"

definition step_batch :: "pipeline_config \<Rightarrow> int \<Rightarrow> int" where
  "step_batch c a = (case max_length c of None \<Rightarrow> 1 | Some l \<Rightarrow> if l \<le> 5 then 100 else 1)"

definition product_model :: capacity_model where
  "product_model =
     \<lparr>is_kv_cache_mixin = True,
      estimate_weights_size = (\<lambda>c. 10),
      estimate_kv_cache_size = product_cache,
      calculate_max_seq_len = (\<lambda>c. 8),
      infer_optimal_batch_size = step_batch\<rparr>"

text \<open>One device with the given free memory, all of it usable, nothing set by the user.\<close>

definition one_device :: "int \<Rightarrow> pipeline_config" where
  "one_device free =
     \<lparr>max_length = None, max_batch_size = None, devices = [Some free],
      device_memory_utilization = (\<lambda>x. x), available_cache_memory = None\<rparr>"

text \<open>The cache size that the batch-size search measures at a trial batch size.\<close>

definition batch_trial_size :: "capacity_model \<Rightarrow> int \<Rightarrow> int \<Rightarrow> state \<Rightarrow> int" where
  "batch_trial_size m a i s = calculate_kv_cache_size m (fst (batch_trial m a i s)) a"

text \<open>
  A bound on the rounds of a search whose interval starts as \<open>[1, n]\<close>: none when the
  parameter is \<open>None\<close> (the search then fails before its loop), and one more than the
  number of binary digits of \<open>n - 2\<close> otherwise.
\<close>

definition search_rounds :: "int option \<Rightarrow> nat" where
  "search_rounds v = (case v of None \<Rightarrow> 0 | Some n \<Rightarrow> 1 + floorlog 2 (nat (n - 2)))"

text \<open>
  The cache size measured at a trial length does not decrease when the length grows,
  whatever batch size the previous trial left in the configuration. With a
  user-provided batch size the configuration keeps that batch size, and the condition
  is monotonicity of the cache size in the sequence length at that batch size.
\<close>

definition trial_monotone :: "capacity_model \<Rightarrow> int \<Rightarrow> bool \<Rightarrow> pipeline_config \<Rightarrow> bool" where
  "trial_monotone m a upb c =
     (\<forall>l l' b b'. l \<le> l' \<and> (upb \<longrightarrow> b = max_batch_size c \<and> b' = max_batch_size c) \<longrightarrow>
        length_trial_size m a upb l (c\<lparr>max_batch_size := b\<rparr>, [])
          \<le> length_trial_size m a upb l' (c\<lparr>max_batch_size := b'\<rparr>, []))"

text \<open>
  The cache size of the model class does not decrease when the sequence length or the
  batch size of a configuration grows.
\<close>

definition cache_monotone :: "capacity_model \<Rightarrow> int \<Rightarrow> pipeline_config \<Rightarrow> bool" where
  "cache_monotone m a c =
     (\<forall>l l' b b'. l \<le> l' \<and> b \<le> b' \<longrightarrow>
        calculate_kv_cache_size m (c\<lparr>max_length := Some l, max_batch_size := Some b\<rparr>) a
          \<le> calculate_kv_cache_size m
               (c\<lparr>max_length := Some l', max_batch_size := Some b'\<rparr>) a)"

text \<open>
  A length is feasible when the cache size measured at it (with the batch size inferred
  at it, unless the user provided one) is within the budget; \<open>L\<close> is the maximum
  feasible length when it is feasible and no feasible length exceeds it.
\<close>

definition feasible_length :: "capacity_model \<Rightarrow> int \<Rightarrow> bool \<Rightarrow> pipeline_config \<Rightarrow> int \<Rightarrow> bool" where
  "feasible_length m a upb c l = (length_trial_size m a upb l (c, []) \<le> a)"

definition max_feasible_length ::
  "capacity_model \<Rightarrow> int \<Rightarrow> bool \<Rightarrow> pipeline_config \<Rightarrow> int \<Rightarrow> bool" where
  "max_feasible_length m a upb c L =
     (feasible_length m a upb c L \<and> (\<forall>l. feasible_length m a upb c l \<longrightarrow> l \<le> L))"

text \<open>The calls into the model class that a given function made.\<close>

fun called_by :: "origin \<Rightarrow> event \<Rightarrow> bool" where
  "called_by k (Call_infer_optimal_batch_size k' c a) = (k = k')"
| "called_by k (Call_calculate_kv_cache_size k' c a) = (k = k')"
| "called_by k (Call_estimate_weights_size c) = False"
| "called_by k (Call_calculate_max_seq_len c) = False"
| "called_by k Warn_device_stats = False"
| "called_by k (Warn_truncated l l') = False"
| "called_by k (Info_estimate w c f) = False"
| "called_by k Warn_high_water_mark = False"

text \<open>The sequence length of the configuration that a call into the model class received.\<close>

fun event_max_length :: "event \<Rightarrow> int option" where
  "event_max_length (Call_infer_optimal_batch_size k c a) = max_length c"
| "event_max_length (Call_calculate_kv_cache_size k c a) = max_length c"
| "event_max_length (Call_estimate_weights_size c) = max_length c"
| "event_max_length (Call_calculate_max_seq_len c) = max_length c"
| "event_max_length Warn_device_stats = None"
| "event_max_length (Warn_truncated l l') = None"
| "event_max_length (Info_estimate w c f) = None"
| "event_max_length Warn_high_water_mark = None"

text \<open>
  The same model class as \<open>product_model\<close>, except that the batch size it infers is the
  sequence length of the configuration.
\<close>

definition length_batch :: "pipeline_config \<Rightarrow> int \<Rightarrow> int" where
  "length_batch c a = (case max_length c of None \<Rightarrow> 1 | Some l \<Rightarrow> l)"

definition square_model :: capacity_model where
  "square_model = product_model\<lparr>infer_optimal_batch_size := length_batch\<rparr>"


section \<open>Properties\<close>

subsection \<open>Floats\<close>

lemma round_half_even_props:
  shows "2 ^ k dvd round_half_even k n"
    and "2 * round_half_even k n \<le> 2 * n + 2 ^ k"
    and "2 * n \<le> 2 * round_half_even k n + 2 ^ k"
proof -
  define P :: nat where "P = 2 ^ k"
  define q where "q = n div P"
  define r where "r = n mod P"
  have P: "0 < P" by (simp add: P_def)
  have n: "n = q * P + r" by (simp add: q_def r_def)
  have r: "r < P" using P by (simp add: r_def)
  have R: "round_half_even k n =
     (if 2 * r < P then q else if 2 * r > P then q + 1 else if even q then q else q + 1) * P"
    by (simp add: round_half_even_def Let_def P_def q_def r_def)
  show "2 ^ k dvd round_half_even k n" unfolding R P_def [symmetric] by simp
  show "2 * round_half_even k n \<le> 2 * n + 2 ^ k"
    unfolding R P_def [symmetric] using n r by (auto simp: algebra_simps)
  show "2 * n \<le> 2 * round_half_even k n + 2 ^ k"
    unfolding R P_def [symmetric] using n r by (auto simp: algebra_simps)
qed

lemma float_of_nat_small: "n < 2 ^ 53 \<Longrightarrow> float_of_nat n = n"
proof -
  assume "n < 2 ^ 53"
  then have "floorlog 2 n \<le> 53" by (simp add: floorlog_le_iff)
  then show ?thesis by (simp add: float_of_nat_def round_half_even_def)
qed

lemma float_of_nat_props:
  fixes n :: nat
  defines "P \<equiv> (2::nat) ^ (floorlog 2 n - 53)"
  shows "P dvd float_of_nat n"
    and "2 * float_of_nat n \<le> 2 * n + P"
    and "2 * n \<le> 2 * float_of_nat n + P"
    and "n < P * 2 ^ 53"
    and "53 < floorlog 2 n \<Longrightarrow> P * 2 ^ 52 \<le> n"
proof -
  show "P dvd float_of_nat n" "2 * float_of_nat n \<le> 2 * n + P" "2 * n \<le> 2 * float_of_nat n + P"
    unfolding P_def float_of_nat_def by (rule round_half_even_props)+
  show "n < P * 2 ^ 53"
  proof (cases "n = 0")
    case True
    then show ?thesis by (simp add: P_def)
  next
    case False
    then have "n < 2 ^ floorlog 2 n" using floorlog_bounds [of n 2] by simp
    also have "\<dots> \<le> 2 ^ (floorlog 2 n - 53 + 53)" by (rule power_increasing) simp_all
    finally show ?thesis by (simp add: P_def power_add)
  qed
  show "P * 2 ^ 52 \<le> n" if "53 < floorlog 2 n"
  proof -
    from that have "0 < n" by (auto simp: floorlog_def split: if_splits)
    from that have "floorlog 2 n - 53 + 52 = floorlog 2 n - 1" by simp
    moreover have "P * 2 ^ 52 = 2 ^ (floorlog 2 n - 53 + 52)"
      by (simp only: P_def power_add)
    ultimately have "P * 2 ^ 52 = 2 ^ (floorlog 2 n - 1)" by (simp only:)
    then show ?thesis using floorlog_bounds [of n 2] \<open>0 < n\<close> by simp
  qed
qed

lemma vram_usage_limit_exact:
  assumes "0 < free" "free < 2 ^ 48"
  shows "(total_size * 2 ^ 52 > vram_usage_limit free) \<longleftrightarrow> (100 * total_size > 95 * free)"
proof -
  define f where "f = nat free"
  define n where "n = 4278419646001971 * f"
  define P :: nat where "P = 2 ^ (floorlog 2 n - 53)"
  define R where "R = float_of_nat n"
  have f: "int f = free" "0 < f" "f < 2 ^ 48" using assms by (simp_all add: f_def nat_less_iff)
  then have "float_of_nat f = f" by (intro float_of_nat_small) simp
  then have lim: "vram_usage_limit free = int R"
    using assms(1) by (simp add: vram_usage_limit_def R_def n_def f_def)
  note fp = float_of_nat_props [of n, folded P_def R_def]
  have Ppos: "0 < P" by (simp add: P_def)
  have Pf: "P \<le> f"
  proof (cases "53 < floorlog 2 n")
    case True
    from fp(5) [OF True] have "P * 2 ^ 52 \<le> 4278419646001971 * f" by (simp add: n_def)
    then show ?thesis by simp
  next
    case False
    then have "P = 1" by (simp add: P_def)
    with f(2) show ?thesis by simp
  qed
  have upper: "4278419646001971 * f < P * 2 ^ 53" using fp(4) by (simp add: n_def)
  consider (above) "20 * total_size \<ge> 19 * free + 1" | (below) "20 * total_size \<le> 19 * free - 1"
    | (tie) "20 * total_size = 19 * free" by linarith
  then show ?thesis
  proof cases
    case above
    have "2 * int R \<le> 2 * int n + int P" using fp(2) by linarith
    then have "total_size * 2 ^ 52 > int R"
      using above Pf f(1,3) by (simp add: n_def) 
    with above lim show ?thesis by simp
  next
    case below
    have "2 * int n \<le> 2 * int R + int P" using fp(3) by linarith
    then have "total_size * 2 ^ 52 \<le> int R"
      using below Pf f(1,3) by (simp add: n_def)
    with below lim show ?thesis by simp
  next
    case tie
    have near: "2 * int R \<le> 2 * int n + int P" "2 * int n \<le> 2 * int R + int P"
      using fp(2,3) by linarith+
    have "4278419646001971 * f < P * 9007199254740992" using upper by simp
    then have "2 * f < 5 * P" using Ppos by linarith
    with near tie f(1) have close: "\<bar>int R - total_size * 2 ^ 52\<bar> < int P"
      by (simp add: n_def)
    have "n < 2 ^ 100" using f(3) by (simp add: n_def)
    then have "floorlog 2 n \<le> 100" by (simp add: floorlog_le_iff)
    then have "P dvd 2 ^ 52" unfolding P_def by (intro le_imp_power_dvd) simp
    then have "int P dvd 2 ^ 52" by (metis int_dvd_int_iff of_nat_numeral of_nat_power)
    then have "int P dvd total_size * 2 ^ 52" by simp
    moreover have "int P dvd int R" using fp(1) by simp
    ultimately have "int P dvd \<bar>int R - total_size * 2 ^ 52\<bar>" by simp
    with close have "int R = total_size * 2 ^ 52"
      using zdvd_imp_le [of "int P" "\<bar>int R - total_size * 2 ^ 52\<bar>"] by linarith
    with tie lim show ?thesis by simp
  qed
qed

text \<open>
  Below \<open>2^48\<close> bytes of free memory the float test of line 511 is the exact one:
  the total is more than 95 percent of the free memory.
\<close>

lemma exceeds_vram_usage_limit_exact:
  assumes "0 < free" "free < 2 ^ 48"
  shows "exceeds_vram_usage_limit total_size free \<longleftrightarrow> 100 * total_size > 95 * free"
  unfolding exceeds_vram_usage_limit_def by (rule vram_usage_limit_exact [OF assms])

lemma float_of_int_small: "\<bar>i\<bar> < 2 ^ 53 \<Longrightarrow> float_of_int i = i"
proof -
  assume "\<bar>i\<bar> < 2 ^ 53"
  then have "nat \<bar>i\<bar> < 2 ^ 53" by (simp add: nat_less_iff)
  then have "float_of_nat (nat \<bar>i\<bar>) = nat \<bar>i\<bar>" by (rule float_of_nat_small)
  then show ?thesis by (simp add: float_of_int_def sgn_if)
qed

subsection \<open>The loop of the length search\<close>

lemma length_trial_fst:
  "fst (length_trial m a upb i s) =
     (if upb then (fst s)\<lparr>max_length := Some i\<rparr>
      else (fst s)\<lparr>max_length := Some i,
             max_batch_size :=
               Some (infer_optimal_batch_size m ((fst s)\<lparr>max_length := Some i\<rparr>) a)\<rparr>)"
  by (simp add: length_trial_def Let_def)

lemma max_length_loop_unfold:
  "max_length_loop m a upb lower upper s =
     (if lower > upper
      then (False, (lower + upper) div 2, length_trial m a upb ((lower + upper) div 2) s)
      else if upper - lower \<le> 1
        then (length_trial_size m a upb ((lower + upper) div 2) s \<le> a, (lower + upper) div 2,
              length_trial m a upb ((lower + upper) div 2) s)
      else if length_trial_size m a upb ((lower + upper) div 2) s > a
        then max_length_loop m a upb lower ((lower + upper) div 2 - 1)
               (length_trial m a upb ((lower + upper) div 2) s)
      else max_length_loop m a upb ((lower + upper) div 2) upper
               (length_trial m a upb ((lower + upper) div 2) s))"
  by (subst max_length_loop.simps) (simp add: Let_def length_trial_size_def)

text \<open>Induction along the loop: the interval \<open>upper - lower\<close> shrinks in every round.\<close>

lemma max_length_loop_induct [consumes 0, case_names step]:
  assumes step: "\<And>lower upper s.
     (\<not> lower > upper \<Longrightarrow> \<not> upper - lower \<le> 1 \<Longrightarrow>
        length_trial_size m a upb ((lower + upper) div 2) s > a \<Longrightarrow>
        P lower ((lower + upper) div 2 - 1) (length_trial m a upb ((lower + upper) div 2) s)) \<Longrightarrow>
     (\<not> lower > upper \<Longrightarrow> \<not> upper - lower \<le> 1 \<Longrightarrow>
        \<not> length_trial_size m a upb ((lower + upper) div 2) s > a \<Longrightarrow>
        P ((lower + upper) div 2) upper (length_trial m a upb ((lower + upper) div 2) s)) \<Longrightarrow>
     P lower upper s"
  shows "P lower upper s"
proof (induction "nat (upper - lower)" arbitrary: lower upper s rule: less_induct)
  case less
  show ?case
  proof (rule step, goal_cases)
    case 1
    then have "nat ((lower + upper) div 2 - 1 - lower) < nat (upper - lower)" by linarith
    then show ?case by (rule less.hyps)
  next
    case 2
    then have "nat (upper - (lower + upper) div 2) < nat (upper - lower)" by linarith
    then show ?case by (rule less.hyps)
  qed
qed

lemma max_length_loop_sound:
  "max_length_loop m a upb lower upper s = (True, len, s') \<Longrightarrow>
     calculate_kv_cache_size m (fst s') a \<le> a"
proof (induction lower upper s rule: max_length_loop_induct [where m = m and a = a and upb = upb])
  case (step lower upper s)
  from step.prems step.IH show ?case
    by (subst (asm) max_length_loop_unfold) (auto simp: length_trial_size_def split: if_splits)
qed

lemma max_length_loop_frame:
  "max_length_loop m a upb lower upper s = (found, len, s') \<Longrightarrow>
     fst s' = (fst s)\<lparr>max_length := Some len, max_batch_size := max_batch_size (fst s')\<rparr>
     \<and> (upb \<longrightarrow> max_batch_size (fst s') = max_batch_size (fst s))"
proof (induction lower upper s rule: max_length_loop_induct [where m = m and a = a and upb = upb])
  case (step lower upper s)
  from step.prems step.IH show ?case
    by (subst (asm) max_length_loop_unfold) (auto simp: length_trial_fst split: if_splits)
qed

lemma max_length_loop_inferred:
  "max_length_loop m a False lower upper s = (found, len, s') \<Longrightarrow>
     \<exists>b0. max_batch_size (fst s') =
       Some (infer_optimal_batch_size m
               ((fst s)\<lparr>max_length := Some len, max_batch_size := b0\<rparr>) a)"
proof (induction lower upper s rule: max_length_loop_induct [where m = m and a = a and upb = False])
  case (step lower upper s)
  have here: "\<exists>b0. max_batch_size (fst (length_trial m a False i s)) =
       Some (infer_optimal_batch_size m
               ((fst s)\<lparr>max_length := Some i, max_batch_size := b0\<rparr>) a)" for i
    by (rule exI [of _ "max_batch_size (fst s)"]) (simp add: length_trial_fst)
  from step.prems step.IH here show ?case
    by (subst (asm) max_length_loop_unfold) (auto simp: length_trial_fst split: if_splits)
qed

text \<open>What a normal return of \<^verbatim>\<open>_find_valid_max_length\<close> is made of.\<close>

lemma find_valid_max_length_Inr:
  assumes "find_valid_max_length m a upb s = (Inr (found, len, bs), s')"
  shows "\<exists>upper. max_length (fst s) = Some upper
           \<and> max_length_loop m a upb 1 upper s = (found, len, s')
           \<and> bs = max_batch_size (fst s')"
  using assms
  by (auto simp: find_valid_max_length_def split: option.splits prod.splits)

subsection \<open>Soundness of the length search\<close>

text \<open>
  C1. Whenever \<^verbatim>\<open>_find_valid_max_length\<close> returns \<open>found_valid_max_length = True\<close>, the
  cache size of the model class at the returned length and the returned companion
  batch size is at most the available cache memory. The configuration at which it is
  measured is the one at entry with these two fields replaced; the companion batch size
  is the user's when the user provided one, and otherwise the batch size inferred at
  the returned length. The bound \<open>max_length \<ge> 1\<close> of the claim is not needed.
\<close>

theorem find_valid_max_length_sound:
  assumes "find_valid_max_length m a upb s = (Inr (True, len, bs), s')"
  shows "calculate_kv_cache_size m
           ((fst s)\<lparr>max_length := Some len, max_batch_size := bs\<rparr>) a \<le> a
       \<and> (upb \<longrightarrow> bs = max_batch_size (fst s))
       \<and> (\<not> upb \<longrightarrow> (\<exists>b0. bs = Some (infer_optimal_batch_size m
                ((fst s)\<lparr>max_length := Some len, max_batch_size := b0\<rparr>) a)))"
proof -
  from find_valid_max_length_Inr [OF assms] obtain upper where
    loop: "max_length_loop m a upb 1 upper s = (True, len, s')"
    and bs: "bs = max_batch_size (fst s')"
    by blast
  from max_length_loop_frame [OF loop] bs have
    cfg: "fst s' = (fst s)\<lparr>max_length := Some len, max_batch_size := bs\<rparr>"
    and pinned: "upb \<longrightarrow> bs = max_batch_size (fst s)"
    by simp_all
  from max_length_loop_sound [OF loop] cfg have
    "calculate_kv_cache_size m ((fst s)\<lparr>max_length := Some len, max_batch_size := bs\<rparr>) a \<le> a"
    by simp
  moreover have "\<exists>b0. bs = Some (infer_optimal_batch_size m
                ((fst s)\<lparr>max_length := Some len, max_batch_size := b0\<rparr>) a)" if "\<not> upb"
    using max_length_loop_inferred [of m a 1 upper s True len s'] loop that bs by simp
  ultimately show ?thesis using pinned by blast
qed

lemmas search_eval =
  find_valid_max_length_def one_device_def max_length_loop_unfold length_trial_size_def
  length_trial_def calculate_kv_cache_size_def product_model_def product_cache_def
  step_batch_def Let_def float_of_int_small exceeds_vram_usage_limit_exact

theorem find_valid_max_length_sound_witness:
  "find_valid_max_length product_model 50 True
     ((one_device 60)\<lparr>max_length := Some 8, max_batch_size := Some 1\<rparr>, []) =
     (Inr (True, 7, Some 1),
      snd (find_valid_max_length product_model 50 True
             ((one_device 60)\<lparr>max_length := Some 8, max_batch_size := Some 1\<rparr>, [])))
   \<and> calculate_kv_cache_size product_model
        ((fst ((one_device 60)\<lparr>max_length := Some 8, max_batch_size := Some 1\<rparr>,
               []::event list))
           \<lparr>max_length := Some 7, max_batch_size := Some 1\<rparr>) 50 \<le> 50
   \<and> Some 1 = max_batch_size
        (fst ((one_device 60)\<lparr>max_length := Some 8, max_batch_size := Some 1\<rparr>,
              []::event list))
   \<and> find_valid_max_length square_model 16 False
        ((one_device 26)\<lparr>max_length := Some 8, max_batch_size := Some 8\<rparr>, []) =
       (Inr (True, 4, Some 4),
        snd (find_valid_max_length square_model 16 False
               ((one_device 26)\<lparr>max_length := Some 8, max_batch_size := Some 8\<rparr>, [])))
   \<and> calculate_kv_cache_size square_model
        ((fst ((one_device 26)\<lparr>max_length := Some 8, max_batch_size := Some 8\<rparr>,
               []::event list))
           \<lparr>max_length := Some 4, max_batch_size := Some 4\<rparr>) 16 \<le> 16
   \<and> (\<exists>b0. Some 4 = Some (infer_optimal_batch_size square_model
          ((fst ((one_device 26)\<lparr>max_length := Some 8, max_batch_size := Some 8\<rparr>,
                 []::event list))
             \<lparr>max_length := Some 4, max_batch_size := b0\<rparr>) 16))"
proof -
  let ?p = "((one_device 60)\<lparr>max_length := Some 8, max_batch_size := Some 1\<rparr>, []::event list)"
  let ?q = "((one_device 26)\<lparr>max_length := Some 8, max_batch_size := Some 8\<rparr>, []::event list)"
  have "fst (find_valid_max_length product_model 50 True ?p) = Inr (True, 7, Some 1)"
    by (simp add: search_eval)
  then have h: "find_valid_max_length product_model 50 True ?p =
     (Inr (True, 7, Some 1), snd (find_valid_max_length product_model 50 True ?p))"
    by (simp add: prod_eq_iff)
  have "fst (find_valid_max_length square_model 16 False ?q) = Inr (True, 4, Some 4)"
    by (simp add: square_model_def length_batch_def search_eval)
  then have k: "find_valid_max_length square_model 16 False ?q =
     (Inr (True, 4, Some 4), snd (find_valid_max_length square_model 16 False ?q))"
    by (simp add: prod_eq_iff)
  note p = find_valid_max_length_sound [OF h]
  note q = find_valid_max_length_sound [OF k]
  have no: "\<not> False" by simp
  show ?thesis
    by (rule conjI [OF h conjI [OF p [THEN conjunct1]
          conjI [OF p [THEN conjunct2, THEN conjunct1, THEN mp, OF TrueI]
            conjI [OF k conjI [OF q [THEN conjunct1]
              q [THEN conjunct2, THEN conjunct2, THEN mp, OF no]]]]]])
qed

subsection \<open>The loop of the batch-size search\<close>

lemma batch_size_loop_unfold:
  "batch_size_loop m a lower upper s =
     (if lower > upper
      then (False, (lower + upper) div 2, batch_trial m a ((lower + upper) div 2) s)
      else if upper - lower \<le> 1
        then (batch_trial_size m a ((lower + upper) div 2) s \<le> a, (lower + upper) div 2,
              batch_trial m a ((lower + upper) div 2) s)
      else if batch_trial_size m a ((lower + upper) div 2) s > a
        then batch_size_loop m a lower ((lower + upper) div 2 - 1)
               (batch_trial m a ((lower + upper) div 2) s)
      else batch_size_loop m a ((lower + upper) div 2) upper
               (batch_trial m a ((lower + upper) div 2) s))"
  by (subst batch_size_loop.simps) (simp add: Let_def batch_trial_size_def)

lemma batch_size_loop_induct [consumes 0, case_names step]:
  assumes step: "\<And>lower upper s.
     (\<not> lower > upper \<Longrightarrow> \<not> upper - lower \<le> 1 \<Longrightarrow>
        batch_trial_size m a ((lower + upper) div 2) s > a \<Longrightarrow>
        P lower ((lower + upper) div 2 - 1) (batch_trial m a ((lower + upper) div 2) s)) \<Longrightarrow>
     (\<not> lower > upper \<Longrightarrow> \<not> upper - lower \<le> 1 \<Longrightarrow>
        \<not> batch_trial_size m a ((lower + upper) div 2) s > a \<Longrightarrow>
        P ((lower + upper) div 2) upper (batch_trial m a ((lower + upper) div 2) s)) \<Longrightarrow>
     P lower upper s"
  shows "P lower upper s"
proof (induction "nat (upper - lower)" arbitrary: lower upper s rule: less_induct)
  case less
  show ?case
  proof (rule step, goal_cases)
    case 1
    then have "nat ((lower + upper) div 2 - 1 - lower) < nat (upper - lower)" by linarith
    then show ?case by (rule less.hyps)
  next
    case 2
    then have "nat (upper - (lower + upper) div 2) < nat (upper - lower)" by linarith
    then show ?case by (rule less.hyps)
  qed
qed

lemma floorlog_halve: "0 < x \<Longrightarrow> Suc (floorlog 2 (x div 2)) = floorlog 2 x"
  by (subst (2) compute_floorlog) simp

lemma rounds_lower:
  fixes lower upper :: int
  assumes "\<not> upper - lower \<le> 1"
  shows "Suc (floorlog 2 (nat ((lower + upper) div 2 - 1 - lower) - 1))
           \<le> floorlog 2 (nat (upper - lower) - 1)"
proof -
  have "nat ((lower + upper) div 2 - 1 - lower) - 1 \<le> (nat (upper - lower) - 1) div 2"
    using assms by linarith
  then have "floorlog 2 (nat ((lower + upper) div 2 - 1 - lower) - 1)
               \<le> floorlog 2 ((nat (upper - lower) - 1) div 2)"
    by (rule floorlog_mono)
  moreover have "0 < nat (upper - lower) - 1" using assms by linarith
  ultimately show ?thesis using floorlog_halve [of "nat (upper - lower) - 1"] by linarith
qed

lemma rounds_upper:
  fixes lower upper :: int
  assumes "\<not> upper - lower \<le> 1"
  shows "Suc (floorlog 2 (nat (upper - (lower + upper) div 2) - 1))
           \<le> floorlog 2 (nat (upper - lower) - 1)"
proof -
  have "nat (upper - (lower + upper) div 2) - 1 \<le> (nat (upper - lower) - 1) div 2"
    using assms by linarith
  then have "floorlog 2 (nat (upper - (lower + upper) div 2) - 1)
               \<le> floorlog 2 ((nat (upper - lower) - 1) div 2)"
    by (rule floorlog_mono)
  moreover have "0 < nat (upper - lower) - 1" using assms by linarith
  ultimately show ?thesis using floorlog_halve [of "nat (upper - lower) - 1"] by linarith
qed

lemma length_trial_trace: "length (snd (length_trial m a upb i s)) \<le> length (snd s) + 2"
  by (simp add: length_trial_def Let_def)

lemma batch_trial_trace: "length (snd (batch_trial m a i s)) = length (snd s) + 1"
  by (simp add: batch_trial_def Let_def)

lemma max_length_loop_calls:
  "length (snd (snd (snd (max_length_loop m a upb lower upper s))))
     \<le> length (snd s) + 2 * (1 + floorlog 2 (nat (upper - lower) - 1))"
proof (induction lower upper s rule: max_length_loop_induct [where m = m and a = a and upb = upb])
  case (step lower upper s)
  let ?mid = "(lower + upper) div 2"
  let ?s1 = "length_trial m a upb ?mid s"
  consider (stop) "lower > upper \<or> upper - lower \<le> 1"
    | (low) "\<not> lower > upper" "\<not> upper - lower \<le> 1" "length_trial_size m a upb ?mid s > a"
    | (high) "\<not> lower > upper" "\<not> upper - lower \<le> 1" "\<not> length_trial_size m a upb ?mid s > a"
    by blast
  then show ?case
  proof cases
    case stop
    then show ?thesis
      using length_trial_trace [of m a upb ?mid s]
      by (subst max_length_loop_unfold) auto
  next
    case low
    from step.IH(1) [OF low] rounds_lower [OF low(2)] length_trial_trace [of m a upb ?mid s]
    show ?thesis using low by (subst max_length_loop_unfold) simp
  next
    case high
    from step.IH(2) [OF high] rounds_upper [OF high(2)] length_trial_trace [of m a upb ?mid s]
    show ?thesis using high by (subst max_length_loop_unfold) simp
  qed
qed

lemma batch_size_loop_calls:
  "length (snd (snd (snd (batch_size_loop m a lower upper s))))
     \<le> length (snd s) + (1 + floorlog 2 (nat (upper - lower) - 1))"
proof (induction lower upper s rule: batch_size_loop_induct [where m = m and a = a])
  case (step lower upper s)
  let ?mid = "(lower + upper) div 2"
  consider (stop) "lower > upper \<or> upper - lower \<le> 1"
    | (low) "\<not> lower > upper" "\<not> upper - lower \<le> 1" "batch_trial_size m a ?mid s > a"
    | (high) "\<not> lower > upper" "\<not> upper - lower \<le> 1" "\<not> batch_trial_size m a ?mid s > a"
    by blast
  then show ?case
  proof cases
    case stop
    then show ?thesis
      using batch_trial_trace [of m a ?mid s]
      by (subst batch_size_loop_unfold) auto
  next
    case low
    from step.IH(1) [OF low] rounds_lower [OF low(2)] batch_trial_trace [of m a ?mid s]
    show ?thesis using low by (subst batch_size_loop_unfold) simp
  next
    case high
    from step.IH(2) [OF high] rounds_upper [OF high(2)] batch_trial_trace [of m a ?mid s]
    show ?thesis using high by (subst batch_size_loop_unfold) simp
  qed
qed

subsection \<open>Termination of the searches\<close>

text \<open>
  C8. Both loops are total functions: their definitions are accepted with the measure
  \<open>upper - lower\<close>, which every round that continues decreases, whatever the cache
  sizes reported by the model class. The trace records every call into the model class,
  so its growth counts the evaluations: \<^verbatim>\<open>_find_valid_max_length\<close> makes at most two
  calls per round (one inference of the batch size, one cache size) and
  \<^verbatim>\<open>_find_valid_batch_size\<close> one, over at most \<open>search_rounds\<close> rounds, a number
  logarithmic in the initial value of the parameter. This holds for every initial
  value, not only for those from \<open>1\<close> on.
\<close>

theorem feasibility_searches_terminate:
  "length (snd (snd (find_valid_max_length m a upb s)))
     \<le> length (snd s) + 2 * search_rounds (max_length (fst s))
   \<and> length (snd (snd (find_valid_batch_size m a original_max_length upb s)))
     \<le> length (snd s) + search_rounds (max_batch_size (fst s))"
proof
  have span: "nat (n - 1) - 1 = nat (n - 2)" for n :: int by linarith
  show "length (snd (snd (find_valid_max_length m a upb s)))
          \<le> length (snd s) + 2 * search_rounds (max_length (fst s))"
  proof (cases "max_length (fst s)")
    case None
    then show ?thesis by (simp add: find_valid_max_length_def)
  next
    case (Some n)
    show ?thesis
    proof (cases "max_batch_size (fst s)")
      case None
      with Some show ?thesis by (simp add: find_valid_max_length_def)
    next
      case (Some b)
      with \<open>max_length (fst s) = Some n\<close> max_length_loop_calls [of m a upb 1 n s] span [of n]
      show ?thesis
        by (auto simp: find_valid_max_length_def search_rounds_def split: prod.splits)
    qed
  qed
  show "length (snd (snd (find_valid_batch_size m a original_max_length upb s)))
          \<le> length (snd s) + search_rounds (max_batch_size (fst s))"
  proof (cases "upb \<and> max_batch_size (fst s) \<noteq> None")
    case False
    then show ?thesis by (auto simp: find_valid_batch_size_def)
  next
    case True
    then obtain n where n: "max_batch_size (fst s) = Some n" by blast
    from True n
      batch_size_loop_calls [of m a 1 n "((fst s)\<lparr>max_length := original_max_length\<rparr>, snd s)"]
      span [of n]
    show ?thesis
      by (auto simp: find_valid_batch_size_def search_rounds_def split: prod.splits)
  qed
qed

subsection \<open>The configuration left behind by the length search\<close>

text \<open>
  C10. When \<^verbatim>\<open>_find_valid_max_length\<close> returns, found or not, the configuration is the
  one at entry with \<open>max_length\<close> replaced by the returned length (the last trial
  midpoint) and \<open>max_batch_size\<close> by the returned companion batch size; nothing restores
  the length held at entry. With a user-provided batch size the companion is that batch
  size; otherwise it is the batch size inferred at the last trial length.
\<close>

theorem find_valid_max_length_post_state:
  assumes "find_valid_max_length m a upb s = (Inr (found, len, bs), s')"
  shows "max_length (fst s') = Some len
       \<and> max_batch_size (fst s') = bs
       \<and> fst s' = (fst s)\<lparr>max_length := Some len, max_batch_size := bs\<rparr>
       \<and> (if upb then bs = max_batch_size (fst s)
          else \<exists>b0. bs = Some (infer_optimal_batch_size m
                 ((fst s)\<lparr>max_length := Some len, max_batch_size := b0\<rparr>) a))"
proof -
  from find_valid_max_length_Inr [OF assms] obtain upper where
    loop: "max_length_loop m a upb 1 upper s = (found, len, s')"
    and bs: "bs = max_batch_size (fst s')"
    by blast
  from max_length_loop_frame [OF loop] bs have
    cfg: "fst s' = (fst s)\<lparr>max_length := Some len, max_batch_size := bs\<rparr>"
    and pinned: "upb \<longrightarrow> bs = max_batch_size (fst s)"
    by simp_all
  have len: "max_length (fst s') = Some len"
    by (subst cfg) simp
  have inferred: "\<exists>b0. bs = Some (infer_optimal_batch_size m
                ((fst s)\<lparr>max_length := Some len, max_batch_size := b0\<rparr>) a)" if "\<not> upb"
    using max_length_loop_inferred [of m a 1 upper s found len s'] loop that
    unfolding bs by simp
  show ?thesis
  proof (intro conjI)
    show "max_length (fst s') = Some len" by (rule len)
    show "max_batch_size (fst s') = bs" by (rule bs [symmetric])
    show "fst s' = (fst s)\<lparr>max_length := Some len, max_batch_size := bs\<rparr>" by (rule cfg)
    show "if upb then bs = max_batch_size (fst s)
          else \<exists>b0. bs = Some (infer_optimal_batch_size m
                 ((fst s)\<lparr>max_length := Some len, max_batch_size := b0\<rparr>) a)"
      using pinned inferred by (cases upb) simp_all
  qed
qed

text \<open>
  A failed search: from length 8 and a budget of 50 the search ends at length 1 with the
  batch size 100 inferred there, and the configuration keeps both.
\<close>

theorem find_valid_max_length_post_state_witness:
  "find_valid_max_length product_model 50 False
     ((one_device 60)\<lparr>max_length := Some 8, max_batch_size := Some 1\<rparr>, []) =
     (Inr (False, 1, Some 100),
      snd (find_valid_max_length product_model 50 False
             ((one_device 60)\<lparr>max_length := Some 8, max_batch_size := Some 1\<rparr>, [])))
   \<and> max_length (fst (snd (find_valid_max_length product_model 50 False
        ((one_device 60)\<lparr>max_length := Some 8, max_batch_size := Some 1\<rparr>, [])))) = Some 1
   \<and> max_batch_size (fst (snd (find_valid_max_length product_model 50 False
        ((one_device 60)\<lparr>max_length := Some 8, max_batch_size := Some 1\<rparr>, [])))) = Some 100"
proof -
  have "fst (find_valid_max_length product_model 50 False
          ((one_device 60)\<lparr>max_length := Some 8, max_batch_size := Some 1\<rparr>, [])) =
        Inr (False, 1, Some 100)"
    by (simp add: search_eval)
  then have h: "find_valid_max_length product_model 50 False
     ((one_device 60)\<lparr>max_length := Some 8, max_batch_size := Some 1\<rparr>, []) =
     (Inr (False, 1, Some 100),
      snd (find_valid_max_length product_model 50 False
             ((one_device 60)\<lparr>max_length := Some 8, max_batch_size := Some 1\<rparr>, [])))"
    by (simp add: prod_eq_iff)
  note post = find_valid_max_length_post_state [OF h]
  show ?thesis
    by (rule conjI [OF h conjI [OF post [THEN conjunct1]
          post [THEN conjunct2, THEN conjunct1]]])
qed

subsection \<open>Near-optimality of the length search\<close>

lemma length_trial_size_cfg:
  "length_trial_size m a upb l (c\<lparr>max_length := x, max_batch_size := y\<rparr>, t) =
     length_trial_size m a upb l (c\<lparr>max_batch_size := y\<rparr>, [])"
  by (simp add: length_trial_size_def length_trial_def Let_def)

lemma length_trial_cfg:
  assumes "fst s = c\<lparr>max_length := x, max_batch_size := y\<rparr>" "upb \<longrightarrow> y = max_batch_size c"
  shows "\<exists>x' y'. fst (length_trial m a upb i s) = c\<lparr>max_length := x', max_batch_size := y'\<rparr>
            \<and> (upb \<longrightarrow> y' = max_batch_size c)"
  using assms by (auto simp: length_trial_fst)

lemma trial_monotoneD:
  assumes "trial_monotone m a upb c" "l \<le> l'"
    "fst s = c\<lparr>max_length := x, max_batch_size := y\<rparr>" "upb \<longrightarrow> y = max_batch_size c"
    "fst s' = c\<lparr>max_length := x', max_batch_size := y'\<rparr>" "upb \<longrightarrow> y' = max_batch_size c"
  shows "length_trial_size m a upb l s \<le> length_trial_size m a upb l' s'"
proof -
  have "length_trial_size m a upb l (c\<lparr>max_batch_size := y\<rparr>, [])
          \<le> length_trial_size m a upb l' (c\<lparr>max_batch_size := y'\<rparr>, [])"
    using assms(1,2,4,6) unfolding trial_monotone_def by blast
  moreover have "length_trial_size m a upb l s = length_trial_size m a upb l (c\<lparr>max_batch_size := y\<rparr>, [])"
    using length_trial_size_cfg [where c = c and x = x and y = y and t = "snd s"] assms(3)
    by (metis prod.collapse)
  moreover have "length_trial_size m a upb l' s' = length_trial_size m a upb l' (c\<lparr>max_batch_size := y'\<rparr>, [])"
    using length_trial_size_cfg [where c = c and x = x' and y = y' and t = "snd s'"] assms(5)
    by (metis prod.collapse)
  ultimately show ?thesis by simp
qed


lemma max_length_loop_near_max:
  assumes mono: "trial_monotone m a upb c"
  shows "fst s = c\<lparr>max_length := x, max_batch_size := y\<rparr> \<Longrightarrow>
         (upb \<longrightarrow> y = max_batch_size c) \<Longrightarrow>
         lower \<le> L \<Longrightarrow> L \<le> upper \<Longrightarrow> length_trial_size m a upb L s \<le> a \<Longrightarrow>
         (case max_length_loop m a upb lower upper s of
            (found, len, s') \<Rightarrow> found \<and> L - 1 \<le> len \<and> len \<le> upper)"
proof (induction lower upper s arbitrary: L x y
         rule: max_length_loop_induct [where m = m and a = a and upb = upb])
  case (step lower upper s)
  let ?mid = "(lower + upper) div 2"
  let ?s1 = "length_trial m a upb ?mid s"
  from length_trial_cfg [OF step.prems(1,2)] obtain x1 y1 where
    s1: "fst ?s1 = c\<lparr>max_length := x1, max_batch_size := y1\<rparr>"
    and y1: "upb \<longrightarrow> y1 = max_batch_size c"
    by blast
  have le: "length_trial_size m a upb l t \<le> length_trial_size m a upb l' t'"
    if "l \<le> l'" "t = s \<or> t = ?s1" "t' = s \<or> t' = ?s1" for l l' t t'
    using that trial_monotoneD [OF mono that(1)] step.prems(1,2) s1 y1 by metis
  have not_empty: "\<not> lower > upper" using step.prems(3,4) by simp
  show ?case
  proof (cases "upper - lower \<le> 1")
    case True
    then have mid: "?mid = lower" using not_empty by linarith
    have "length_trial_size m a upb lower s \<le> length_trial_size m a upb L s"
      using le [of lower L s s] step.prems(3) by simp
    with step.prems(5) have "length_trial_size m a upb lower s \<le> a" by simp
    with True not_empty mid step.prems(3,4) show ?thesis
      by (subst max_length_loop_unfold) simp
  next
    case wide: False
    show ?thesis
    proof (cases "length_trial_size m a upb ?mid s > a")
      case True
      have "L < ?mid"
      proof (rule ccontr)
        assume "\<not> L < ?mid"
        then have "length_trial_size m a upb ?mid s \<le> length_trial_size m a upb L s"
          using le [of ?mid L s s] by simp
        with True step.prems(5) show False by simp
      qed
      then have L: "L \<le> ?mid - 1" by simp
      have feas: "length_trial_size m a upb L ?s1 \<le> a"
        using le [of L L ?s1 s] step.prems(5) by simp
      from step.IH(1) [OF not_empty wide True s1 y1 step.prems(3) L feas]
      show ?thesis using not_empty wide True
        by (subst max_length_loop_unfold) (auto split: prod.splits)
    next
      case False
      show ?thesis
      proof (cases "?mid \<le> L")
        case True
        have feas: "length_trial_size m a upb L ?s1 \<le> a"
          using le [of L L ?s1 s] step.prems(5) by simp
        from step.IH(2) [OF not_empty wide False s1 y1 True step.prems(4) feas]
        show ?thesis using not_empty wide False
          by (subst max_length_loop_unfold) (auto split: prod.splits)
      next
        case below: False
        have feas: "length_trial_size m a upb ?mid ?s1 \<le> a"
          using le [of ?mid ?mid ?s1 s] False by simp
        have "?mid \<le> upper" using not_empty by linarith
        from step.IH(2) [OF not_empty wide False s1 y1 order_refl this feas]
        show ?thesis using not_empty wide False below
          by (subst max_length_loop_unfold) (auto split: prod.splits)
      qed
    qed
  qed
qed

lemma product_cache_monotone: "cache_monotone product_model a c"
  unfolding cache_monotone_def
  by (auto simp: calculate_kv_cache_size_def product_model_def product_cache_def
        intro!: mult_mono)

text \<open>
  C2, as stated, fails. The cache size \<open>product_cache\<close> is monotone in the sequence
  length and in the batch size, and with a budget of 8 the lengths 6, 7 and 8 are
  feasible at the batch size inferred for them (which is 1), so that the maximum feasible
  length is 8. The lengths 1 to 5 are not feasible, because the batch size inferred for
  them is 100; the search from \<open>[1, 8]\<close> tries 4, 2 and 1 and returns length 1, not
  found.
\<close>

theorem near_optimality_counterexample:
  "cache_monotone product_model 8 ((one_device 18)\<lparr>max_length := Some 8, max_batch_size := Some 1\<rparr>)
   \<and> max_feasible_length product_model 8 False
        ((one_device 18)\<lparr>max_length := Some 8, max_batch_size := Some 1\<rparr>) 8
   \<and> fst (find_valid_max_length product_model 8 False
        ((one_device 18)\<lparr>max_length := Some 8, max_batch_size := Some 1\<rparr>, []))
       = Inr (False, 1, Some 100)
   \<and> \<not> (8 - 1 \<le> (1::int))"
proof (intro conjI)
  show "cache_monotone product_model 8
          ((one_device 18)\<lparr>max_length := Some 8, max_batch_size := Some 1\<rparr>)"
    by (rule product_cache_monotone)
  show "max_feasible_length product_model 8 False
          ((one_device 18)\<lparr>max_length := Some 8, max_batch_size := Some 1\<rparr>) 8"
    unfolding max_feasible_length_def feasible_length_def
    by (auto simp: length_trial_size_def length_trial_def calculate_kv_cache_size_def
          product_model_def product_cache_def step_batch_def one_device_def Let_def
          split: if_splits)
  show "fst (find_valid_max_length product_model 8 False
          ((one_device 18)\<lparr>max_length := Some 8, max_batch_size := Some 1\<rparr>, []))
        = Inr (False, 1, Some 100)"
    by (simp add: search_eval)
  show "\<not> (8 - 1 \<le> (1::int))" by simp
qed

text \<open>
  C2, amended. When the cache size measured at a trial length is monotone in the trial
  length (\<open>trial_monotone\<close>: for a user-provided batch size this is monotonicity of the
  cache size in the sequence length), every feasible length \<open>L\<close> of the search interval
  \<open>[1, max_length]\<close> makes the search succeed with a length of at least \<open>L - 1\<close>; so it
  does for the largest of them.
\<close>

theorem find_valid_max_length_near_max:
  assumes "trial_monotone m a upb (fst s)"
    and "max_length (fst s) = Some n" and "max_batch_size (fst s) = Some b"
    and "1 \<le> L" and "L \<le> n" and "feasible_length m a upb (fst s) L"
  shows "case fst (find_valid_max_length m a upb s) of
           Inl e \<Rightarrow> False
         | Inr (found, len, bs) \<Rightarrow> found \<and> L - 1 \<le> len \<and> len \<le> n"
proof -
  have cfg: "fst s = (fst s)\<lparr>max_length := Some n, max_batch_size := Some b\<rparr>"
    using assms(2,3) by simp
  have "length_trial_size m a upb L s = length_trial_size m a upb L (fst s, [])"
    by (simp add: length_trial_size_def length_trial_def Let_def)
  with assms(6) have feas: "length_trial_size m a upb L s \<le> a"
    by (simp add: feasible_length_def)
  have "upb \<longrightarrow> Some b = max_batch_size (fst s)" using assms(3) by simp
  from max_length_loop_near_max [OF assms(1) cfg this assms(4,5) feas]
  show ?thesis using assms(2,3)
    by (auto simp: find_valid_max_length_def split: prod.splits)
qed

theorem find_valid_max_length_near_max_witness:
  "trial_monotone product_model 50 True
     (fst ((one_device 60)\<lparr>max_length := Some 8, max_batch_size := Some 1\<rparr>, []::event list))
   \<and> feasible_length product_model 50 True
     (fst ((one_device 60)\<lparr>max_length := Some 8, max_batch_size := Some 1\<rparr>, []::event list)) 8
   \<and> (case fst (find_valid_max_length product_model 50 True
             ((one_device 60)\<lparr>max_length := Some 8, max_batch_size := Some 1\<rparr>, [])) of
         Inl e \<Rightarrow> False
       | Inr (found, len, bs) \<Rightarrow> found \<and> 8 - 1 \<le> len \<and> len \<le> 8)"
proof -
  let ?c = "(one_device 60)\<lparr>max_length := Some 8, max_batch_size := Some 1\<rparr>"
  have mono: "trial_monotone product_model 50 True (fst (?c, []::event list))"
    unfolding trial_monotone_def
    by (auto simp: length_trial_size_def length_trial_def calculate_kv_cache_size_def
          product_model_def product_cache_def one_device_def Let_def)
  have feas: "feasible_length product_model 50 True (fst (?c, []::event list)) 8"
    by (simp add: feasible_length_def length_trial_size_def length_trial_def
          calculate_kv_cache_size_def product_model_def product_cache_def one_device_def Let_def)
  have ml: "max_length (fst (?c, []::event list)) = Some 8" by simp
  have mb: "max_batch_size (fst (?c, []::event list)) = Some 1" by simp
  have l1: "(1::int) \<le> 8" by simp
  show ?thesis
    by (rule conjI [OF mono conjI [OF feas
          find_valid_max_length_near_max [OF mono ml mb l1 order_refl feas]]])
qed

subsection \<open>Degraded mode\<close>

text \<open>
  C4. When the query of the free memory of some device fails,
  \<^verbatim>\<open>_estimate_memory_footprint\<close> returns without raising. A batch size the user did not
  provide is set to 1, and a sequence length the user did not provide is set to
  \<^verbatim>\<open>calculate_max_seq_len\<close> of the configuration (after the batch size was set). The
  trace gains the warning and, when the length is set, the one call of
  \<^verbatim>\<open>calculate_max_seq_len\<close>, and nothing else: the weights size, the cache budget, the
  cache size and the searches are never evaluated.
\<close>

theorem degraded_mode:
  assumes "sum_free_memory (devices (fst s)) = None"
  shows "fst (estimate_memory_footprint m s) = Returned
       \<and> (max_batch_size (fst s) = None \<longrightarrow>
            max_batch_size (fst (snd (estimate_memory_footprint m s))) = Some 1)
       \<and> (max_length (fst s) = None \<longrightarrow>
            max_length (fst (snd (estimate_memory_footprint m s))) =
              Some (calculate_max_seq_len m
                      (if falsy (max_batch_size (fst s))
                       then (fst s)\<lparr>max_batch_size := Some 1\<rparr> else fst s)))
       \<and> snd (snd (estimate_memory_footprint m s)) =
            snd s @ Warn_device_stats #
              (if falsy (max_length (fst s))
               then [Call_calculate_max_seq_len
                       (if falsy (max_batch_size (fst s))
                        then (fst s)\<lparr>max_batch_size := Some 1\<rparr> else fst s)]
               else [])"
  using assms
  by (auto simp: estimate_memory_footprint_def degraded_defaults_def falsy_def Let_def
        split: option.splits)

theorem degraded_mode_witness:
  "sum_free_memory (devices (fst ((one_device 60)\<lparr>devices := [Some 60, None]\<rparr>, []::event list)))
     = None
   \<and> fst (estimate_memory_footprint product_model
            ((one_device 60)\<lparr>devices := [Some 60, None]\<rparr>, [])) = Returned
   \<and> max_batch_size (fst (snd (estimate_memory_footprint product_model
            ((one_device 60)\<lparr>devices := [Some 60, None]\<rparr>, [])))) = Some 1
   \<and> max_length (fst (snd (estimate_memory_footprint product_model
            ((one_device 60)\<lparr>devices := [Some 60, None]\<rparr>, [])))) = Some 8"
proof -
  let ?s = "((one_device 60)\<lparr>devices := [Some 60, None]\<rparr>, []::event list)"
  have h: "sum_free_memory (devices (fst ?s)) = None"
    by (simp add: one_device_def)
  have b: "max_batch_size (fst ?s) = None" and l: "max_length (fst ?s) = None"
    by (simp_all add: one_device_def)
  note d = degraded_mode [OF h, of product_model]
  have "max_length (fst (snd (estimate_memory_footprint product_model ?s))) =
          Some (calculate_max_seq_len product_model
                  (if falsy (max_batch_size (fst ?s))
                   then (fst ?s)\<lparr>max_batch_size := Some 1\<rparr> else fst ?s))"
    by (rule d [THEN conjunct2, THEN conjunct2, THEN conjunct1, THEN mp, OF l])
  then have len: "max_length (fst (snd (estimate_memory_footprint product_model ?s))) = Some 8"
    by (simp add: product_model_def)
  show ?thesis
    by (rule conjI [OF h conjI [OF d [THEN conjunct1]
          conjI [OF d [THEN conjunct2, THEN conjunct1, THEN mp, OF b] len]]])
qed

subsection \<open>The traces of the searches\<close>

lemma length_trial_trace_events:
  "\<exists>tr. snd (length_trial m a upb i s) = snd s @ tr \<and> list_all (called_by LengthSearch) tr"
  by (simp add: length_trial_def Let_def)

lemma max_length_loop_trace_events:
  "\<exists>tr. snd (snd (snd (max_length_loop m a upb lower upper s))) = snd s @ tr
        \<and> list_all (called_by LengthSearch) tr"
proof (induction lower upper s rule: max_length_loop_induct [where m = m and a = a and upb = upb])
  case (step lower upper s)
  let ?s1 = "length_trial m a upb ((lower + upper) div 2) s"
  from length_trial_trace_events [of m a upb "(lower + upper) div 2" s] obtain tr1 where
    tr1: "snd ?s1 = snd s @ tr1" "list_all (called_by LengthSearch) tr1"
    by blast
  have extend: "\<exists>tr. t = snd s @ tr \<and> list_all (called_by LengthSearch) tr"
    if "\<exists>tr. t = snd ?s1 @ tr \<and> list_all (called_by LengthSearch) tr" for t
  proof -
    from that obtain tr2 where "t = snd ?s1 @ tr2" "list_all (called_by LengthSearch) tr2"
      by blast
    with tr1 have "t = snd s @ (tr1 @ tr2) \<and> list_all (called_by LengthSearch) (tr1 @ tr2)"
      by simp
    then show ?thesis by blast
  qed
  consider (stop) "lower > upper \<or> upper - lower \<le> 1"
    | (low) "\<not> lower > upper" "\<not> upper - lower \<le> 1"
        "length_trial_size m a upb ((lower + upper) div 2) s > a"
    | (high) "\<not> lower > upper" "\<not> upper - lower \<le> 1"
        "\<not> length_trial_size m a upb ((lower + upper) div 2) s > a"
    by blast
  then show ?case
  proof cases
    case stop
    then show ?thesis using tr1 by (subst max_length_loop_unfold) auto
  next
    case low
    from extend [OF step.IH(1) [OF low]] show ?thesis
      using low by (subst max_length_loop_unfold) simp
  next
    case high
    from extend [OF step.IH(2) [OF high]] show ?thesis
      using high by (subst max_length_loop_unfold) simp
  qed
qed


lemma batch_trial_trace_events:
  "\<exists>tr. snd (batch_trial m a i s) = snd s @ tr \<and> list_all (called_by BatchSearch) tr"
  by (simp add: batch_trial_def Let_def)

lemma batch_trial_fst:
  "fst (batch_trial m a i s) = (fst s)\<lparr>max_batch_size := Some i\<rparr>"
  by (simp add: batch_trial_def Let_def)

lemma batch_size_loop_trace_events:
  "\<exists>tr. snd (snd (snd (batch_size_loop m a lower upper s))) = snd s @ tr
        \<and> list_all (called_by BatchSearch) tr"
proof (induction lower upper s rule: batch_size_loop_induct [where m = m and a = a])
  case (step lower upper s)
  let ?s1 = "batch_trial m a ((lower + upper) div 2) s"
  from batch_trial_trace_events [of m a "(lower + upper) div 2" s] obtain tr1 where
    tr1: "snd ?s1 = snd s @ tr1" "list_all (called_by BatchSearch) tr1"
    by blast
  have extend: "\<exists>tr. t = snd s @ tr \<and> list_all (called_by BatchSearch) tr"
    if "\<exists>tr. t = snd ?s1 @ tr \<and> list_all (called_by BatchSearch) tr" for t
  proof -
    from that obtain tr2 where "t = snd ?s1 @ tr2" "list_all (called_by BatchSearch) tr2"
      by blast
    with tr1 have "t = snd s @ (tr1 @ tr2) \<and> list_all (called_by BatchSearch) (tr1 @ tr2)"
      by simp
    then show ?thesis by blast
  qed
  consider (stop) "lower > upper \<or> upper - lower \<le> 1"
    | (low) "\<not> lower > upper" "\<not> upper - lower \<le> 1"
        "batch_trial_size m a ((lower + upper) div 2) s > a"
    | (high) "\<not> lower > upper" "\<not> upper - lower \<le> 1"
        "\<not> batch_trial_size m a ((lower + upper) div 2) s > a"
    by blast
  then show ?case
  proof cases
    case stop
    then show ?thesis using tr1 by (subst batch_size_loop_unfold) auto
  next
    case low
    from extend [OF step.IH(1) [OF low]] show ?thesis
      using low by (subst batch_size_loop_unfold) simp
  next
    case high
    from extend [OF step.IH(2) [OF high]] show ?thesis
      using high by (subst batch_size_loop_unfold) simp
  qed
qed


subsection \<open>The footprint before the decision\<close>

lemma initial_footprint_props:
  assumes "initial_footprint m free s = ((w, a, kv0, total0), s1)"
  shows "w = estimate_weights_size m (fst s)"
    and "a = device_memory_utilization (fst s) (max 0 (free - w))"
    and "\<exists>c. kv0 = calculate_kv_cache_size m c a"
    and "total0 = w + kv0"
    and "max_length (fst s1) \<noteq> None"
    and "max_batch_size (fst s1) \<noteq> None"
    and "max_length (fst s) \<noteq> None \<Longrightarrow> max_length (fst s1) = max_length (fst s)"
    and "max_batch_size (fst s) \<noteq> None \<Longrightarrow> max_batch_size (fst s1) = max_batch_size (fst s)"
    and "\<exists>tr. snd s1 = snd s @ tr
           \<and> list_all (\<lambda>e. e \<noteq> Warn_high_water_mark \<and> \<not> called_by LengthSearch e
                             \<and> \<not> called_by BatchSearch e) tr"
  using assms
  by (auto simp: initial_footprint_def Let_def)


lemma shrink_max_length_props:
  assumes both: "max_length (fst s1) \<noteq> None" "max_batch_size (fst s1) \<noteq> None"
    and total0: "total0 = w + kv0"
  shows "\<exists>kv total s2. shrink_max_length m free upl upb (w, a, kv0, total0) s1
                          = (Inr (kv, total), s2)
           \<and> total = w + kv
           \<and> (kv = kv0 \<or> (\<exists>c. kv = calculate_kv_cache_size m c a))
           \<and> (upl \<longrightarrow> s2 = s1)
           \<and> (upb \<longrightarrow> max_batch_size (fst s2) = max_batch_size (fst s1))
           \<and> (\<exists>tr. snd s2 = snd s1 @ tr
                 \<and> list_all (\<lambda>e. e \<noteq> Warn_high_water_mark \<and> \<not> called_by BatchSearch e) tr)"
proof (cases "total0 > free \<and> \<not> upl")
  case False
  then have "shrink_max_length m free upl upb (w, a, kv0, total0) s1 = (Inr (kv0, total0), s1)"
    by (auto simp: shrink_max_length_def)
  with total0 show ?thesis by simp
next
  case True
  from both obtain n b where n: "max_length (fst s1) = Some n"
    and b: "max_batch_size (fst s1) = Some b"
    by blast
  obtain found len s' where loop: "max_length_loop m a upb 1 n s1 = (found, len, s')"
    by (cases "max_length_loop m a upb 1 n s1") auto
  with n b have fv: "find_valid_max_length m a upb s1 = (Inr (found, len, max_batch_size (fst s')), s')"
    by (simp add: find_valid_max_length_def)
  from max_length_loop_trace_events [of m a upb 1 n s1] loop obtain tr where
    tr: "snd s' = snd s1 @ tr" "list_all (called_by LengthSearch) tr"
    by auto
  have other: "e \<noteq> Warn_high_water_mark \<and> \<not> called_by BatchSearch e"
    if "called_by LengthSearch e" for e
    using that by (cases e) auto
  with tr(2) have tr_ok:
    "list_all (\<lambda>e. e \<noteq> Warn_high_water_mark \<and> \<not> called_by BatchSearch e) tr"
    by (auto simp: list_all_iff)
  from max_length_loop_frame [OF loop] have
    keep: "upb \<longrightarrow> max_batch_size (fst s') = max_batch_size (fst s1)"
    by simp
  show ?thesis
  proof (cases found)
    case False
    with True fv have "shrink_max_length m free upl upb (w, a, kv0, total0) s1
                        = (Inr (kv0, total0), s')"
      by (simp add: shrink_max_length_def)
    with total0 True keep tr(1) tr_ok show ?thesis by auto
  next
    case found: True
    let ?c2 = "(fst s')\<lparr>max_length := Some len\<rparr>"
    let ?kv = "calculate_kv_cache_size m ?c2 a"
    let ?t3 = "snd s' @ [Warn_truncated (max_length (fst s1)) len,
                 Call_calculate_kv_cache_size Resolver ?c2 a]"
    from True fv found have
      "shrink_max_length m free upl upb (w, a, kv0, total0) s1 = (Inr (?kv, w + ?kv), (?c2, ?t3))"
      by (simp add: shrink_max_length_def Let_def)
    moreover have "snd (?c2, ?t3) = snd s1 @ (tr @ [Warn_truncated (max_length (fst s1)) len,
                 Call_calculate_kv_cache_size Resolver ?c2 a])"
      using tr(1) by simp
    moreover have "list_all (\<lambda>e. e \<noteq> Warn_high_water_mark \<and> \<not> called_by BatchSearch e)
                     (tr @ [Warn_truncated (max_length (fst s1)) len,
                            Call_calculate_kv_cache_size Resolver ?c2 a])"
      using tr_ok by simp
    ultimately show ?thesis using True keep by force
  qed
qed

lemma settled_footprint_props:
  "\<exists>w a kv total s2. settled_footprint m free s = (Inr (w, a, kv, total), s2)
     \<and> w = estimate_weights_size m (fst s)
     \<and> total = w + kv
     \<and> (\<exists>c. kv = calculate_kv_cache_size m c a)
     \<and> (max_length (fst s) \<noteq> None \<longrightarrow>
          max_length (fst s2) = max_length (fst s)
          \<and> filter (called_by LengthSearch) (snd s2) = filter (called_by LengthSearch) (snd s))
     \<and> (max_batch_size (fst s) \<noteq> None \<longrightarrow> max_batch_size (fst s2) = max_batch_size (fst s))
     \<and> filter (called_by BatchSearch) (snd s2) = filter (called_by BatchSearch) (snd s)
     \<and> filter ((=) Warn_high_water_mark) (snd s2) = filter ((=) Warn_high_water_mark) (snd s)"
proof -
  obtain w a kv0 total0 s1 where init: "initial_footprint m free s = ((w, a, kv0, total0), s1)"
    by (metis prod.exhaust)
  note i = initial_footprint_props [OF init]
  let ?upl = "max_length (fst s) \<noteq> None"
  let ?upb = "max_batch_size (fst s) \<noteq> None"
  from shrink_max_length_props [OF i(5,6,4), of m free ?upl ?upb a] obtain kv total s2 where
    shrink: "shrink_max_length m free ?upl ?upb (w, a, kv0, total0) s1 = (Inr (kv, total), s2)"
    and total: "total = w + kv"
    and kv: "kv = kv0 \<or> (\<exists>c. kv = calculate_kv_cache_size m c a)"
    and pinned_len: "?upl \<longrightarrow> s2 = s1"
    and pinned_batch: "?upb \<longrightarrow> max_batch_size (fst s2) = max_batch_size (fst s1)"
    and tr2: "\<exists>tr. snd s2 = snd s1 @ tr
                \<and> list_all (\<lambda>e. e \<noteq> Warn_high_water_mark \<and> \<not> called_by BatchSearch e) tr"
    by blast
  from init shrink have settled: "settled_footprint m free s = (Inr (w, a, kv, total), s2)"
    by (simp add: settled_footprint_def)
  from i(9) obtain tr1 where tr1: "snd s1 = snd s @ tr1"
    "list_all (\<lambda>e. e \<noteq> Warn_high_water_mark \<and> \<not> called_by LengthSearch e
                             \<and> \<not> called_by BatchSearch e) tr1"
    by blast
  from tr2 obtain tr where tr: "snd s2 = snd s1 @ tr"
    "list_all (\<lambda>e. e \<noteq> Warn_high_water_mark \<and> \<not> called_by BatchSearch e) tr"
    by blast
  have f1: "filter P tr1 = []" if "\<And>e. P e \<Longrightarrow> e = Warn_high_water_mark \<or> called_by LengthSearch e
       \<or> called_by BatchSearch e" for P
    using tr1(2) that by (auto simp: list_all_iff filter_empty_conv)
  have f2: "filter P tr = []" if "\<And>e. P e \<Longrightarrow> e = Warn_high_water_mark \<or> called_by BatchSearch e"
    for P
    using tr(2) that by (auto simp: list_all_iff filter_empty_conv)
  have batch: "filter (called_by BatchSearch) (snd s2) = filter (called_by BatchSearch) (snd s)"
    using tr(1) tr1(1) f1 [of "called_by BatchSearch"] f2 [of "called_by BatchSearch"] by simp
  have warn: "filter ((=) Warn_high_water_mark) (snd s2) = filter ((=) Warn_high_water_mark) (snd s)"
    using tr(1) tr1(1) f1 [of "(=) Warn_high_water_mark"] f2 [of "(=) Warn_high_water_mark"]
    by simp
  have len: "max_length (fst s2) = max_length (fst s)
          \<and> filter (called_by LengthSearch) (snd s2) = filter (called_by LengthSearch) (snd s)"
    if "?upl"
  proof -
    from that pinned_len have "s2 = s1" by simp
    with i(7) [OF that] tr1(1) f1 [of "called_by LengthSearch"] show ?thesis by simp
  qed
  have kv': "\<exists>c. kv = calculate_kv_cache_size m c a" using kv i(3) by blast
  have b: "?upb \<longrightarrow> max_batch_size (fst s2) = max_batch_size (fst s)"
    using pinned_batch i(8) by simp
  from settled i(1) total kv' len b batch warn show ?thesis by blast
qed

subsection \<open>Weights larger than the free memory\<close>

lemma max_length_loop_trace_grows:
  "length (filter (called_by LengthSearch) (snd s))
     < length (filter (called_by LengthSearch)
         (snd (snd (snd (max_length_loop m a upb lower upper s)))))"
proof -
  let ?mid = "(lower + upper) div 2"
  let ?s1 = "length_trial m a upb ?mid s"
  have first: "length (filter (called_by LengthSearch) (snd s))
                 < length (filter (called_by LengthSearch) (snd ?s1))"
    by (simp add: length_trial_def Let_def)
  have rest: "length (filter (called_by LengthSearch) (snd ?s1))
                \<le> length (filter (called_by LengthSearch)
                     (snd (snd (snd (max_length_loop m a upb l u ?s1)))))" for l u
    using max_length_loop_trace_events [of m a upb l u ?s1] by auto
  show ?thesis
    using first rest [of lower "?mid - 1"] rest [of ?mid upper]
    by (subst max_length_loop_unfold) auto
qed

lemma settled_footprint_searches:
  assumes "max_length (fst s) = None"
    and "free < estimate_weights_size m (fst s)"
    and "\<forall>c a. 0 \<le> calculate_kv_cache_size m c a"
  shows "length (filter (called_by LengthSearch) (snd s))
           < length (filter (called_by LengthSearch) (snd (snd (settled_footprint m free s))))"
proof -
  obtain w a kv0 total0 s1 where init: "initial_footprint m free s = ((w, a, kv0, total0), s1)"
    by (metis prod.exhaust)
  note i = initial_footprint_props [OF init]
  from i(3) assms(3) have "0 \<le> kv0" by blast
  with i(1,4) assms(2) have over: "free < total0" by simp
  from i(5,6) obtain n b where nb: "max_length (fst s1) = Some n" "max_batch_size (fst s1) = Some b"
    by blast
  from i(9) have same: "filter (called_by LengthSearch) (snd s1)
                          = filter (called_by LengthSearch) (snd s)"
    by (auto simp: list_all_iff filter_empty_conv)
  let ?upb = "max_batch_size (fst s) \<noteq> None"
  obtain found len s' where loop: "max_length_loop m a ?upb 1 n s1 = (found, len, s')"
    by (metis prod.exhaust)
  from max_length_loop_trace_grows [of s1 m a ?upb 1 n] loop have
    grows: "length (filter (called_by LengthSearch) (snd s1))
              < length (filter (called_by LengthSearch) (snd s'))"
    by simp
  from nb loop have
    fv: "find_valid_max_length m a ?upb s1 = (Inr (found, len, max_batch_size (fst s')), s')"
    by (simp add: find_valid_max_length_def)
  have "length (filter (called_by LengthSearch) (snd s'))
          \<le> length (filter (called_by LengthSearch)
               (snd (snd (shrink_max_length m free False ?upb (w, a, kv0, total0) s1))))"
    using over fv by (simp add: shrink_max_length_def Let_def)
  moreover have "snd (settled_footprint m free s)
                   = snd (shrink_max_length m free False ?upb (w, a, kv0, total0) s1)"
    using init assms(1) by (auto simp: settled_footprint_def split: prod.splits sum.splits)
  ultimately show ?thesis using grows same by simp
qed

lemma settled_footprint_unpinned:
  assumes "max_length (fst s) = None"
    and "free < estimate_weights_size m (fst s)"
    and "\<forall>c a. 0 \<le> calculate_kv_cache_size m c a"
  shows "filter (called_by LengthSearch) (snd (snd (settled_footprint m free s)))
           = filter (called_by LengthSearch)
               (snd (snd (find_valid_max_length m (fst (snd (fst (initial_footprint m free s))))
                            (max_batch_size (fst s) \<noteq> None)
                            (snd (initial_footprint m free s)))))"
    and "filter (called_by LengthSearch) (snd (snd (initial_footprint m free s)))
           = filter (called_by LengthSearch) (snd s)"
proof -
  obtain w a kv0 total0 s1 where init: "initial_footprint m free s = ((w, a, kv0, total0), s1)"
    by (metis prod.exhaust)
  note i = initial_footprint_props [OF init]
  from i(3) assms(3) have "0 \<le> kv0" by blast
  with i(1,4) assms(2) have over: "free < total0" by simp
  from i(9) show "filter (called_by LengthSearch) (snd (snd (initial_footprint m free s)))
           = filter (called_by LengthSearch) (snd s)"
    unfolding init by (auto simp: list_all_iff filter_empty_conv)
  let ?upb = "max_batch_size (fst s) \<noteq> None"
  obtain r s' where fv: "find_valid_max_length m a ?upb s1 = (r, s')"
    by (metis prod.exhaust)
  have "filter (called_by LengthSearch)
          (snd (snd (shrink_max_length m free False ?upb (w, a, kv0, total0) s1)))
        = filter (called_by LengthSearch) (snd s')"
    using over fv by (auto simp: shrink_max_length_def Let_def split: sum.splits)
  moreover have "snd (settled_footprint m free s)
                   = snd (shrink_max_length m free False ?upb (w, a, kv0, total0) s1)"
    using init assms(1) by (auto simp: settled_footprint_def split: prod.splits sum.splits)
  ultimately show "filter (called_by LengthSearch) (snd (snd (settled_footprint m free s)))
           = filter (called_by LengthSearch)
               (snd (snd (find_valid_max_length m (fst (snd (fst (initial_footprint m free s))))
                            (max_batch_size (fst s) \<noteq> None)
                            (snd (initial_footprint m free s)))))"
    using init fv by simp
qed

text \<open>
  C3, as stated, fails. With 5 bytes of free memory and weights of 10 bytes, and no
  sequence length given by the user, the resolution does end with the error of
  \<^verbatim>\<open>_raise_oom_error\<close> for weights that are too large, but only after lines 438 to 463
  have run the length search: the trace holds six calls made by it.
\<close>

theorem weights_too_large_counterexample:
  "sum_free_memory (devices (one_device 5)) = Some 5
   \<and> 5 < estimate_weights_size product_model (one_device 5)
   \<and> fst (estimate_memory_footprint product_model (one_device 5, []))
       = Raised (RuntimeError weights_too_large_message)
   \<and> length (filter (called_by LengthSearch)
        (snd (snd (estimate_memory_footprint product_model (one_device 5, []))))) = 6"
  by (simp add: estimate_memory_footprint_def settled_footprint_def initial_footprint_def
        shrink_max_length_def report_footprint_def raise_oom_error_def search_eval)

text \<open>
  C3, amended. When the free memory is known and not zero, the weights size exceeds
  it, and the cache sizes reported by the model class are not negative, the resolution
  raises the error for weights that are too large, and \<^verbatim>\<open>_raise_oom_error\<close> raises it
  at once: the state at the end is the one after line 463 with the log record of
  line 495 added, so the two searches of \<^verbatim>\<open>_raise_oom_error\<close> do not run. The
  batch-size search is never run. The length search is not run when the user provided
  the sequence length; otherwise the calls of the length search are those of the one
  run of \<^verbatim>\<open>_find_valid_max_length\<close> that lines 438 to 463 start from the state after
  line 436, and there is at least one. (With no free memory at all the log record of
  line 486 fails first, on the unassigned \<^verbatim>\<open>free_memory_str\<close>.)
\<close>

theorem weights_too_large:
  assumes "sum_free_memory (devices (fst s)) = Some free" and "free \<noteq> 0"
    and "free < estimate_weights_size m (fst s)"
    and "\<forall>c a. 0 \<le> calculate_kv_cache_size m c a"
  shows "fst (estimate_memory_footprint m s) = Raised (RuntimeError weights_too_large_message)
       \<and> (case settled_footprint m free s of
            (Inr (w, a, kv, t), s2) \<Rightarrow>
              snd (estimate_memory_footprint m s) = (fst s2, snd s2 @ [Info_estimate w kv free])
          | (Inl e, s2) \<Rightarrow> False)
       \<and> filter (called_by BatchSearch) (snd (snd (estimate_memory_footprint m s)))
           = filter (called_by BatchSearch) (snd s)
       \<and> (max_length (fst s) \<noteq> None \<longrightarrow>
            filter (called_by LengthSearch) (snd (snd (estimate_memory_footprint m s)))
              = filter (called_by LengthSearch) (snd s))
       \<and> (max_length (fst s) = None \<longrightarrow>
            filter (called_by LengthSearch) (snd (snd (estimate_memory_footprint m s)))
              = filter (called_by LengthSearch)
                  (snd (snd (find_valid_max_length m
                               (fst (snd (fst (initial_footprint m free s))))
                               (max_batch_size (fst s) \<noteq> None)
                               (snd (initial_footprint m free s)))))
            \<and> filter (called_by LengthSearch) (snd (snd (initial_footprint m free s)))
                = filter (called_by LengthSearch) (snd s)
            \<and> length (filter (called_by LengthSearch) (snd s))
                < length (filter (called_by LengthSearch)
                    (snd (snd (estimate_memory_footprint m s)))))"
proof -
  from settled_footprint_props [of m free s] obtain w a kv total s2 where
    settled: "settled_footprint m free s = (Inr (w, a, kv, total), s2)"
    and w: "w = estimate_weights_size m (fst s)"
    and total: "total = w + kv"
    and kv: "\<exists>c. kv = calculate_kv_cache_size m c a"
    and len: "max_length (fst s) \<noteq> None \<longrightarrow>
          filter (called_by LengthSearch) (snd s2) = filter (called_by LengthSearch) (snd s)"
    and batch: "filter (called_by BatchSearch) (snd s2) = filter (called_by BatchSearch) (snd s)"
    by blast
  from kv assms(4) have "0 \<le> kv" by blast
  with total w assms(3) have over: "free < total" "free < w" by simp_all
  let ?s1 = "(fst s2, snd s2 @ [Info_estimate w kv free])"
  have "raise_oom_error m (max_length (fst s) \<noteq> None) (max_batch_size (fst s) \<noteq> None)
          total free a w ?s1 = (RuntimeError weights_too_large_message, ?s1)"
    using over(2) by (simp add: raise_oom_error_def)
  with over(1) assms(2) have
    "report_footprint m free (max_length (fst s) \<noteq> None) (max_batch_size (fst s) \<noteq> None)
       w a kv total s2 = (Raised (RuntimeError weights_too_large_message), ?s1)"
    by (simp add: report_footprint_def Let_def)
  with settled assms(1) have
    result: "estimate_memory_footprint m s = (Raised (RuntimeError weights_too_large_message), ?s1)"
    by (simp add: estimate_memory_footprint_def)
  have state: "(case settled_footprint m free s of
            (Inr (w, a, kv, t), s2) \<Rightarrow>
              snd (estimate_memory_footprint m s) = (fst s2, snd s2 @ [Info_estimate w kv free])
          | (Inl e, s2) \<Rightarrow> False)"
    using settled result by simp
  have unpinned: "filter (called_by LengthSearch) (snd ?s1)
              = filter (called_by LengthSearch)
                  (snd (snd (find_valid_max_length m
                               (fst (snd (fst (initial_footprint m free s))))
                               (max_batch_size (fst s) \<noteq> None)
                               (snd (initial_footprint m free s)))))
            \<and> filter (called_by LengthSearch) (snd (snd (initial_footprint m free s)))
                = filter (called_by LengthSearch) (snd s)
            \<and> length (filter (called_by LengthSearch) (snd s))
                < length (filter (called_by LengthSearch) (snd ?s1))"
    if "max_length (fst s) = None"
    using settled_footprint_searches [OF that assms(3,4)]
      settled_footprint_unpinned [OF that assms(3,4)] settled
    by simp
  have tr: "snd (snd (estimate_memory_footprint m s)) = snd ?s1"
    using result by simp
  show ?thesis
  proof (intro conjI impI)
    show "fst (estimate_memory_footprint m s) = Raised (RuntimeError weights_too_large_message)"
      using result by simp
    show "case settled_footprint m free s of
            (Inr (w, a, kv, t), s2) \<Rightarrow>
              snd (estimate_memory_footprint m s) = (fst s2, snd s2 @ [Info_estimate w kv free])
          | (Inl e, s2) \<Rightarrow> False"
      by (rule state)
    show "filter (called_by BatchSearch) (snd (snd (estimate_memory_footprint m s)))
           = filter (called_by BatchSearch) (snd s)"
      unfolding tr using batch by simp
    show "filter (called_by LengthSearch) (snd (snd (estimate_memory_footprint m s)))
              = filter (called_by LengthSearch) (snd s)"
      if "max_length (fst s) \<noteq> None"
      unfolding tr using len that by simp
    show "filter (called_by LengthSearch) (snd (snd (estimate_memory_footprint m s)))
              = filter (called_by LengthSearch)
                  (snd (snd (find_valid_max_length m
                               (fst (snd (fst (initial_footprint m free s))))
                               (max_batch_size (fst s) \<noteq> None)
                               (snd (initial_footprint m free s)))))"
      if "max_length (fst s) = None"
      unfolding tr by (rule unpinned [OF that, THEN conjunct1])
    show "filter (called_by LengthSearch) (snd (snd (initial_footprint m free s)))
                = filter (called_by LengthSearch) (snd s)"
      if "max_length (fst s) = None"
      by (rule unpinned [OF that, THEN conjunct2, THEN conjunct1])
    show "length (filter (called_by LengthSearch) (snd s))
                < length (filter (called_by LengthSearch)
                    (snd (snd (estimate_memory_footprint m s))))"
      if "max_length (fst s) = None"
      unfolding tr by (rule unpinned [OF that, THEN conjunct2, THEN conjunct2])
  qed
qed

theorem weights_too_large_witness:
  "sum_free_memory (devices (fst ((one_device 5)\<lparr>max_length := Some 4\<rparr>, []::event list)))
     = Some 5
   \<and> 5 < estimate_weights_size product_model
           (fst ((one_device 5)\<lparr>max_length := Some 4\<rparr>, []::event list))
   \<and> fst (estimate_memory_footprint product_model ((one_device 5)\<lparr>max_length := Some 4\<rparr>, []))
       = Raised (RuntimeError weights_too_large_message)
   \<and> filter (called_by BatchSearch)
        (snd (snd (estimate_memory_footprint product_model
                     ((one_device 5)\<lparr>max_length := Some 4\<rparr>, []))))
       = filter (called_by BatchSearch) (snd ((one_device 5)\<lparr>max_length := Some 4\<rparr>, []))
   \<and> filter (called_by LengthSearch)
        (snd (snd (estimate_memory_footprint product_model
                     ((one_device 5)\<lparr>max_length := Some 4\<rparr>, []))))
       = filter (called_by LengthSearch) (snd ((one_device 5)\<lparr>max_length := Some 4\<rparr>, []))
   \<and> max_length (fst (one_device 5, []::event list)) = None
   \<and> filter (called_by LengthSearch)
        (snd (snd (estimate_memory_footprint product_model (one_device 5, []))))
       = filter (called_by LengthSearch)
           (snd (snd (find_valid_max_length product_model
                        (fst (snd (fst (initial_footprint product_model 5 (one_device 5, [])))))
                        (max_batch_size (fst (one_device 5, []::event list)) \<noteq> None)
                        (snd (initial_footprint product_model 5 (one_device 5, []))))))
   \<and> length (filter (called_by LengthSearch) (snd (one_device 5, [])))
       < length (filter (called_by LengthSearch)
           (snd (snd (estimate_memory_footprint product_model (one_device 5, [])))))"
proof -
  let ?s = "((one_device 5)\<lparr>max_length := Some 4\<rparr>, []::event list)"
  let ?u = "(one_device 5, []::event list)"
  have free: "sum_free_memory (devices (fst ?s)) = Some 5"
    and free': "sum_free_memory (devices (fst ?u)) = Some 5"
    by (simp_all add: one_device_def)
  have nz: "(5::int) \<noteq> 0" by simp
  have w: "5 < estimate_weights_size product_model (fst ?s)"
    and w': "5 < estimate_weights_size product_model (fst ?u)"
    by (simp_all add: product_model_def)
  have pos: "\<forall>c a. 0 \<le> calculate_kv_cache_size product_model c a"
    by (simp add: calculate_kv_cache_size_def product_model_def product_cache_def
          split: option.splits)
  have pinned: "max_length (fst ?s) \<noteq> None" by simp
  have unpinned: "max_length (fst ?u) = None" by (simp add: one_device_def)
  note t = weights_too_large [OF free nz w pos]
  note u = weights_too_large [OF free' nz w' pos, THEN conjunct2, THEN conjunct2,
      THEN conjunct2, THEN conjunct2, THEN mp, OF unpinned]
  show ?thesis
    by (rule conjI [OF free conjI [OF w conjI [OF t [THEN conjunct1]
          conjI [OF t [THEN conjunct2, THEN conjunct2, THEN conjunct1]
            conjI [OF t [THEN conjunct2, THEN conjunct2, THEN conjunct2, THEN conjunct1,
                        THEN mp, OF pinned]
              conjI [OF unpinned
                conjI [OF u [THEN conjunct1] u [THEN conjunct2, THEN conjunct2]]]]]]]])
qed

subsection \<open>The high-water mark\<close>

text \<open>
  C7, as stated, fails at the threshold. With 100 bytes free, weights of 10 bytes and
  a cache of 85 bytes the total is 95 bytes, exactly 95 percent of the free memory;
  the resolution returns, and no high-water-mark warning is logged, because line 511
  compares with a strict \<^verbatim>\<open>>\<close>.
\<close>

theorem high_water_mark_counterexample:
  "sum_free_memory
     (devices ((one_device 100)\<lparr>max_length := Some 85, max_batch_size := Some 1\<rparr>)) = Some 100
   \<and> fst (settled_footprint product_model 100
            ((one_device 100)\<lparr>max_length := Some 85, max_batch_size := Some 1\<rparr>, []))
       = Inr (10, 90, 85, 95)
   \<and> (95::int) \<le> 100
   \<and> 95 * (100::int) \<le> 100 * 95
   \<and> fst (estimate_memory_footprint product_model
            ((one_device 100)\<lparr>max_length := Some 85, max_batch_size := Some 1\<rparr>, []))
       = Returned
   \<and> Warn_high_water_mark \<notin> set (snd (snd (estimate_memory_footprint product_model
            ((one_device 100)\<lparr>max_length := Some 85, max_batch_size := Some 1\<rparr>, []))))"
  by (simp add: estimate_memory_footprint_def settled_footprint_def initial_footprint_def
        shrink_max_length_def report_footprint_def search_eval)

text \<open>
  Beyond \<open>2^48\<close> bytes the rounding of the float product decides the test of line
  511: with 1577242592720081 bytes free, a total of 1498380463084077 bytes is more than
  95 percent of the free memory, and the test is false.
\<close>

lemma float_test_beyond_bound:
  "\<not> exceeds_vram_usage_limit 1498380463084077 1577242592720081
   \<and> 100 * 1498380463084077 > 95 * (1577242592720081::int)"
  by (simp add: exceeds_vram_usage_limit_def vram_usage_limit_def float_of_nat_def
        round_half_even_def compute_floorlog)

text \<open>
  C7, amended. When the free memory is known, positive and below \<open>2^48\<close> bytes, and
  the total that lines 405 to 463 arrive at is within it, the resolution returns, and
  it logs the high-water-mark warning exactly when the total is strictly more than 95
  percent of the free memory. The warning is logged nowhere else.
\<close>

theorem high_water_mark:
  assumes "sum_free_memory (devices (fst s)) = Some free" and "0 < free" and "free < 2 ^ 48"
    and "settled_footprint m free s = (Inr (w, a, kv, total_size), s2)"
    and "total_size \<le> free"
  shows "estimate_memory_footprint m s =
           (Returned,
            (fst s2, snd s2 @ Info_estimate w kv free #
                       (if 100 * total_size > 95 * free then [Warn_high_water_mark] else [])))
       \<and> filter ((=) Warn_high_water_mark) (snd s2) = filter ((=) Warn_high_water_mark) (snd s)"
proof -
  from settled_footprint_props [of m free s] assms(4) have
    "filter ((=) Warn_high_water_mark) (snd s2) = filter ((=) Warn_high_water_mark) (snd s)"
    by auto
  moreover have "estimate_memory_footprint m s =
           (Returned,
            (fst s2, snd s2 @ Info_estimate w kv free #
                       (if 100 * total_size > 95 * free then [Warn_high_water_mark] else [])))"
    using assms exceeds_vram_usage_limit_exact [OF assms(2,3), of total_size]
    by (simp add: estimate_memory_footprint_def report_footprint_def Let_def)
  ultimately show ?thesis by simp
qed

theorem high_water_mark_witness:
  "sum_free_memory
     (devices (fst ((one_device 100)\<lparr>max_length := Some 86, max_batch_size := Some 1\<rparr>,
                    []::event list))) = Some 100
   \<and> (0::int) < 100 \<and> (100::int) < 2 ^ 48
   \<and> settled_footprint product_model 100
        ((one_device 100)\<lparr>max_length := Some 86, max_batch_size := Some 1\<rparr>, [])
       = (Inr (10, 90, 86, 96),
          snd (settled_footprint product_model 100
                 ((one_device 100)\<lparr>max_length := Some 86, max_batch_size := Some 1\<rparr>, [])))
   \<and> (96::int) \<le> 100
   \<and> estimate_memory_footprint product_model
        ((one_device 100)\<lparr>max_length := Some 86, max_batch_size := Some 1\<rparr>, [])
       = (Returned,
          (fst (snd (settled_footprint product_model 100
                 ((one_device 100)\<lparr>max_length := Some 86, max_batch_size := Some 1\<rparr>, []))),
           snd (snd (settled_footprint product_model 100
                 ((one_device 100)\<lparr>max_length := Some 86, max_batch_size := Some 1\<rparr>, [])))
           @ Info_estimate 10 86 100 #
               (if 100 * 96 > 95 * (100::int) then [Warn_high_water_mark] else [])))"
proof -
  let ?s = "((one_device 100)\<lparr>max_length := Some 86, max_batch_size := Some 1\<rparr>, []::event list)"
  have free: "sum_free_memory (devices (fst ?s)) = Some 100"
    by (simp add: one_device_def)
  have pos: "(0::int) < 100" and small: "(100::int) < 2 ^ 48" by simp_all
  have "fst (settled_footprint product_model 100 ?s) = Inr (10, 90, 86, 96)"
    by (simp add: settled_footprint_def initial_footprint_def shrink_max_length_def search_eval)
  then have settled: "settled_footprint product_model 100 ?s
       = (Inr (10, 90, 86, 96), snd (settled_footprint product_model 100 ?s))"
    by (simp add: prod_eq_iff)
  have fits: "(96::int) \<le> 100" by simp
  show ?thesis
    by (rule conjI [OF free conjI [OF pos conjI [OF small conjI [OF settled conjI [OF fits
          high_water_mark [OF free pos small settled fits, THEN conjunct1]]]]]])
qed

subsection \<open>The message of the out-of-memory error\<close>







subsection \<open>The sequence length during the batch-size search\<close>

text \<open>
  Inside \<^verbatim>\<open>_find_valid_batch_size\<close> every cache size is calculated at the sequence
  length that was passed as \<open>original_max_length\<close>.
\<close>

lemma batch_size_loop_lengths:
  "\<exists>tr. snd (snd (snd (batch_size_loop m a lower upper s))) = snd s @ tr
        \<and> list_all (\<lambda>e. event_max_length e = max_length (fst s)) tr
        \<and> max_length (fst (snd (snd (batch_size_loop m a lower upper s)))) = max_length (fst s)"
proof (induction lower upper s rule: batch_size_loop_induct [where m = m and a = a])
  case (step lower upper s)
  let ?s1 = "batch_trial m a ((lower + upper) div 2) s"
  have tr1: "snd ?s1 = snd s @
               [Call_calculate_kv_cache_size BatchSearch
                  ((fst s)\<lparr>max_batch_size := Some ((lower + upper) div 2)\<rparr>) a]"
    and len1: "max_length (fst ?s1) = max_length (fst s)"
    by (simp_all add: batch_trial_def Let_def)
  have extend: "\<exists>tr. snd r = snd s @ tr
                  \<and> list_all (\<lambda>e. event_max_length e = max_length (fst s)) tr
                  \<and> max_length (fst r) = max_length (fst s)"
    if "\<exists>tr. snd r = snd ?s1 @ tr
          \<and> list_all (\<lambda>e. event_max_length e = max_length (fst ?s1)) tr
          \<and> max_length (fst r) = max_length (fst ?s1)" for r
    using that unfolding tr1 len1 by auto
  consider (stop) "lower > upper \<or> upper - lower \<le> 1"
    | (low) "\<not> lower > upper" "\<not> upper - lower \<le> 1"
        "batch_trial_size m a ((lower + upper) div 2) s > a"
    | (high) "\<not> lower > upper" "\<not> upper - lower \<le> 1"
        "\<not> batch_trial_size m a ((lower + upper) div 2) s > a"
    by blast
  then show ?case
  proof cases
    case stop
    then show ?thesis using tr1 len1 by (subst (1 2) batch_size_loop_unfold) auto
  next
    case low
    from extend [OF step.IH(1) [OF low]] show ?thesis
      using low by (subst (1 2) batch_size_loop_unfold) simp
  next
    case high
    from extend [OF step.IH(2) [OF high]] show ?thesis
      using high by (subst (1 2) batch_size_loop_unfold) simp
  qed
qed

lemma find_valid_batch_size_lengths:
  "\<exists>tr. snd (snd (find_valid_batch_size m a original_max_length upb s)) = snd s @ tr
        \<and> list_all (\<lambda>e. called_by BatchSearch e \<and> event_max_length e = original_max_length) tr"
proof (cases "upb \<and> max_batch_size (fst s) \<noteq> None")
  case False
  then show ?thesis by (auto simp: find_valid_batch_size_def)
next
  case True
  then obtain n where n: "max_batch_size (fst s) = Some n" by blast
  let ?s1 = "((fst s)\<lparr>max_length := original_max_length\<rparr>, snd s)"
  from batch_size_loop_lengths [of m a 1 n ?s1] obtain tr where
    tr: "snd (snd (snd (batch_size_loop m a 1 n ?s1))) = snd s @ tr"
      "list_all (\<lambda>e. event_max_length e = original_max_length) tr"
    by auto
  from batch_size_loop_trace_events [of m a 1 n ?s1] tr(1) have
    "list_all (called_by BatchSearch) tr" by auto
  with tr(2) have "list_all (\<lambda>e. called_by BatchSearch e
                                \<and> event_max_length e = original_max_length) tr"
    by (auto simp: list_all_iff)
  with True n tr(1) show ?thesis
    by (auto simp: find_valid_batch_size_def Let_def split: prod.splits)
qed

text \<open>
  C6 does not hold of the code. The user gives a batch size of 100 and no sequence
  length; the device has 60 bytes free. The default length is 8, at which the total
  of 810 bytes exceeds the free memory, so lines 438 to 463 run the length search. It
  finds nothing and leaves \<open>max_length = 1\<close> in the configuration.
  \<^verbatim>\<open>_raise_oom_error\<close> then reads \<open>original_max_length\<close> from the configuration, and
  the batch-size search makes all of its six cache-size calls at length 1, not at 8.
  The message recommends a batch size of 50, which fits at length 1 only.
\<close>

theorem batch_search_length_not_original:
  "max_length (fst (snd (initial_footprint product_model 60
       ((one_device 60)\<lparr>max_batch_size := Some 100\<rparr>, [])))) = Some 8
   \<and> map event_max_length (filter (called_by BatchSearch)
        (snd (snd (estimate_memory_footprint product_model
           ((one_device 60)\<lparr>max_batch_size := Some 100\<rparr>, [])))))
       = [Some 1, Some 1, Some 1, Some 1, Some 1, Some 1]
   \<and> fst (estimate_memory_footprint product_model
           ((one_device 60)\<lparr>max_batch_size := Some 100\<rparr>, []))
       = Raised (RuntimeError
           ''Estimated model and kv cache memory use exceeds available memory (0 MiB / 0 MiB free). Try reducing --max-batch-size to 50.'')"
  by (simp add: estimate_memory_footprint_def settled_footprint_def initial_footprint_def
        shrink_max_length_def report_footprint_def raise_oom_error_def search_eval
        find_valid_batch_size_def batch_size_loop_unfold batch_trial_size_def batch_trial_def
        generate_oom_error_message_def oom_message_head_def oom_suggestions_def
        add_default_max_length_suggestions_def to_mib_def str_int_def str_nat.simps
        digit_char_def)

subsection \<open>Parameters provided by the user\<close>









end
